theory Spec2Isabelle
  imports Complex_Main "HOL-Library.Log_Nat" "HOL-Library.Signed_Division" "HOL-Library.Word"
begin

section \<open>Errors\<close>

text \<open>
  The program has no recoverable errors; the three ways in which it can stop are branches of
  the model: a failed \<^verbatim>\<open>assert\<close> in the constructor of \<^verbatim>\<open>Hex\<close>, the exception
  \<^verbatim>\<open>std::out_of_range\<close> thrown by \<^verbatim>\<open>unordered_map::at\<close>, and the dereference of an empty
  \<^verbatim>\<open>std::optional\<close> (undefined behaviour in C++).
\<close>

datatype error = AssertionFailed | OutOfRange | EmptyOptional

definition bind_err :: "error + 'a \<Rightarrow> ('a \<Rightarrow> error + 'b) \<Rightarrow> error + 'b" where
  "bind_err x f = (case x of Inl e \<Rightarrow> Inl e | Inr a \<Rightarrow> f a)"

section \<open>Single-precision numbers\<close>

text \<open>
  \<^verbatim>\<open>rotationProgress\<close> and \<^verbatim>\<open>dt\<close> are C++ \<^verbatim>\<open>float\<close>s: IEEE 754 binary32 numbers, with
  every sum and product rounded to the nearest representable value, ties to the even
  significand. A finite value is modelled by the rational number it denotes; the two zeros
  are identified (they compare equal, and the modelled code neither divides nor inspects
  the sign bit).
\<close>

datatype float32 = Finite rat | PInf | NInf | NaN

text \<open>The binary exponent of a positive rational: \<open>2 powi ilog2 x \<le> x < 2 powi (ilog2 x + 1)\<close>.\<close>

definition ilog2 :: "rat \<Rightarrow> int" where
  "ilog2 x = (case quotient_of x of (a, b) \<Rightarrow>
     (let d = bitlen a - bitlen b in if 2 powi d \<le> x then d else d - 1))"

definition round_even :: "rat \<Rightarrow> int" where
  "round_even x = (let f = \<lfloor>x\<rfloor>; d = x - of_int f in
     if d < 1 / 2 then f else if 1 / 2 < d then f + 1 else if even f then f else f + 1)"

text \<open>
  Rounding to binary32: 24 significant bits, least exponent \<open>-126\<close> (below it the spacing of
  the subnormal numbers stays \<open>2 powi -149\<close>), overflow to an infinity from \<open>2 ^ 128\<close> on.
\<close>

definition round32 :: "rat \<Rightarrow> float32" where
  "round32 x = (if x = 0 then Finite 0 else
     (let e = max (ilog2 \<bar>x\<bar>) (- 126); u = 2 powi (e - 23);
          y = of_int (round_even (\<bar>x\<bar> / u)) * u
      in if 2 ^ 128 \<le> y then (if 0 < x then PInf else NInf) else Finite (sgn x * y)))"

fun fadd :: "float32 \<Rightarrow> float32 \<Rightarrow> float32" where
  "fadd NaN _ = NaN"
| "fadd _ NaN = NaN"
| "fadd (Finite x) (Finite y) = round32 (x + y)"
| "fadd PInf NInf = NaN"
| "fadd NInf PInf = NaN"
| "fadd PInf _ = PInf"
| "fadd _ PInf = PInf"
| "fadd NInf _ = NInf"
| "fadd _ NInf = NInf"

fun fmul :: "float32 \<Rightarrow> float32 \<Rightarrow> float32" where
  "fmul NaN _ = NaN"
| "fmul _ NaN = NaN"
| "fmul (Finite x) (Finite y) = round32 (x * y)"
| "fmul (Finite x) PInf = (if x = 0 then NaN else if 0 < x then PInf else NInf)"
| "fmul (Finite x) NInf = (if x = 0 then NaN else if 0 < x then NInf else PInf)"
| "fmul PInf (Finite y) = (if y = 0 then NaN else if 0 < y then PInf else NInf)"
| "fmul NInf (Finite y) = (if y = 0 then NaN else if 0 < y then NInf else PInf)"
| "fmul PInf PInf = PInf"
| "fmul NInf NInf = PInf"
| "fmul PInf NInf = NInf"
| "fmul NInf PInf = NInf"



text \<open>The comparisons \<^verbatim>\<open><\<close> and \<^verbatim>\<open><=\<close>; both are false as soon as one side is not a number.\<close>

fun flt :: "float32 \<Rightarrow> float32 \<Rightarrow> bool" where
  "flt NaN _ = False"
| "flt _ NaN = False"
| "flt (Finite x) (Finite y) = (x < y)"
| "flt _ NInf = False"
| "flt NInf _ = True"
| "flt PInf _ = False"
| "flt _ PInf = True"

fun fle :: "float32 \<Rightarrow> float32 \<Rightarrow> bool" where
  "fle NaN _ = False"
| "fle _ NaN = False"
| "fle (Finite x) (Finite y) = (x \<le> y)"
| "fle NInf _ = True"
| "fle _ PInf = True"
| "fle _ NInf = False"
| "fle PInf _ = False"

definition fgt :: "float32 \<Rightarrow> float32 \<Rightarrow> bool" where
  "fgt a b = flt b a"

definition fge :: "float32 \<Rightarrow> float32 \<Rightarrow> bool" where
  "fge a b = fle b a"

section \<open>Hex coordinates\<close>

text \<open>
  The coordinates are C++ \<^verbatim>\<open>int\<close>s. They are modelled by unbounded integers: signed overflow
  is undefined behaviour in C++, so the model describes the runs of the program in which no
  coordinate leaves the range of \<^verbatim>\<open>int\<close>.
\<close>

record Hex =
  q :: int
  r :: int
  s :: int

definition Hex_valid :: "Hex \<Rightarrow> bool" where
  "Hex_valid h = (q h + r h + s h = 0)"

text \<open>The constructor, with its assertion.\<close>

definition Hex_ctor :: "int \<Rightarrow> int \<Rightarrow> int \<Rightarrow> error + Hex" where
  "Hex_ctor q_in r_in s_in =
     (if q_in + r_in + s_in = 0 then Inr \<lparr>q = q_in, r = r_in, s = s_in\<rparr> else Inl AssertionFailed)"

text \<open>\<^verbatim>\<open>operator==\<close> compares \<^verbatim>\<open>q\<close> and \<^verbatim>\<open>r\<close> only.\<close>

definition Hex_eq :: "Hex \<Rightarrow> Hex \<Rightarrow> bool" where
  "Hex_eq a b = (q a = q b \<and> r a = r b)"

definition hexAdd :: "Hex \<Rightarrow> Hex \<Rightarrow> error + Hex" where
  "hexAdd a b = Hex_ctor (q a + q b) (r a + r b) (s a + s b)"

datatype HexDirection = East | SouthEast | SouthWest | West | NorthWest | NorthEast

fun HexDirection_index :: "HexDirection \<Rightarrow> nat" where
  "HexDirection_index East = 0"
| "HexDirection_index SouthEast = 1"
| "HexDirection_index SouthWest = 2"
| "HexDirection_index West = 3"
| "HexDirection_index NorthWest = 4"
| "HexDirection_index NorthEast = 5"

definition hex_directions :: "Hex list" where
  "hex_directions =
     [\<lparr>q = 1, r = 0, s = - 1\<rparr>, \<lparr>q = 1, r = - 1, s = 0\<rparr>, \<lparr>q = 0, r = - 1, s = 1\<rparr>,
      \<lparr>q = - 1, r = 0, s = 1\<rparr>, \<lparr>q = - 1, r = 1, s = 0\<rparr>, \<lparr>q = 0, r = 1, s = - 1\<rparr>]"

definition hexDirection :: "HexDirection \<Rightarrow> Hex" where
  "hexDirection direction = hex_directions ! HexDirection_index direction"

definition hexNeighbour :: "Hex \<Rightarrow> HexDirection \<Rightarrow> error + Hex" where
  "hexNeighbour hex direction = hexAdd hex (hexDirection direction)"

section \<open>Cells\<close>

text \<open>
  The colour type \<^verbatim>\<open>Color\<close> and the constants \<^verbatim>\<open>ORANGE\<close>, \<^verbatim>\<open>MAROON\<close>, \<^verbatim>\<open>LIME\<close> belong to
  the rendering library, which is not part of the repository: the colour is a type
  parameter.
\<close>

record 'c Cell =
  rotatingTo :: "Hex option"
  rotationProgress :: float32
  color :: 'c

text \<open>
  The constructor \<^verbatim>\<open>Cell()\<close> draws the colour \<^verbatim>\<open>availableColors[GetRandomValue(0, 2)]\<close> and
  leaves \<^verbatim>\<open>rotationProgress\<close> uninitialised: the colour drawn and the indeterminate number
  are its arguments here.
\<close>

definition Cell_ctor :: "'c \<Rightarrow> float32 \<Rightarrow> 'c Cell" where
  "Cell_ctor drawn junk = \<lparr>rotatingTo = None, rotationProgress = junk, color = drawn\<rparr>"

definition Cell_startRotation :: "Hex \<Rightarrow> 'c Cell \<Rightarrow> 'c Cell" where
  "Cell_startRotation hex c = c\<lparr>rotatingTo := Some hex, rotationProgress := Finite 0\<rparr>"

definition Cell_stepRotation :: "float32 \<Rightarrow> 'c Cell \<Rightarrow> 'c Cell" where
  "Cell_stepRotation dt c =
     (if rotatingTo c \<noteq> None then
        (let newRotation = fadd (rotationProgress c) (fmul dt (Finite 4));
             newRotation = (if fgt newRotation (Finite 1) then Finite 1 else newRotation)
         in c\<lparr>rotationProgress := newRotation\<rparr>)
      else c)"

definition Cell_rotationDone :: "'c Cell \<Rightarrow> bool" where
  "Cell_rotationDone c = (rotatingTo c = None \<or> fge (rotationProgress c) (Finite 1))"

definition Cell_resetRotation :: "'c Cell \<Rightarrow> 'c Cell" where
  "Cell_resetRotation c = c\<lparr>rotationProgress := Finite (- 1), rotatingTo := None\<rparr>"

section \<open>The arc interpolation\<close>







section \<open>The grid\<close>

text \<open>
  \<^verbatim>\<open>std::unordered_map<Hex, Cell>\<close> identifies its keys by \<^verbatim>\<open>operator==\<close>, which reads \<^verbatim>\<open>q\<close>
  and \<^verbatim>\<open>r\<close> only (the hash reads the same two fields, so it is consistent with it): the map
  is a partial function on the pair \<open>(q, r)\<close>. \<^verbatim>\<open>std::array<Hex, 3>\<close> is a triple.
\<close>

definition Hex_key :: "Hex \<Rightarrow> int \<times> int" where
  "Hex_key h = (q h, r h)"

record 'c HexMap =
  cells :: "int \<times> int \<Rightarrow> 'c Cell option"
  rotation :: "(Hex \<times> Hex \<times> Hex) option"

definition HexMap_ctor :: "'c HexMap" where
  "HexMap_ctor = \<lparr>cells = Map.empty, rotation = None\<rparr>"

definition HexMap_hasRotation :: "'c HexMap \<Rightarrow> bool" where
  "HexMap_hasRotation m = (rotation m \<noteq> None)"

text \<open>\<^verbatim>\<open>emplace\<close> leaves the map as it is when the key is already there.\<close>

definition HexMap_insert :: "Hex \<Rightarrow> 'c Cell \<Rightarrow> 'c HexMap \<Rightarrow> 'c HexMap" where
  "HexMap_insert hex cell m =
     (if cells m (Hex_key hex) = None then m\<lparr>cells := (cells m)(Hex_key hex \<mapsto> cell)\<rparr> else m)"

text \<open>\<^verbatim>\<open>cells.at(h)\<close> throws when the key is absent.\<close>

definition HexMap_at :: "'c HexMap \<Rightarrow> Hex \<Rightarrow> error + 'c Cell" where
  "HexMap_at m h = (case cells m (Hex_key h) of None \<Rightarrow> Inl OutOfRange | Some c \<Rightarrow> Inr c)"

text \<open>
  A reference \<^verbatim>\<open>Cell &\<close> into the map is the key of its slot; a method called through the
  reference changes the cell stored there. Two references to the same slot alias, as in C++.
\<close>

definition modify :: "int \<times> int \<Rightarrow> ('c Cell \<Rightarrow> 'c Cell) \<Rightarrow> 'c HexMap \<Rightarrow> 'c HexMap" where
  "modify k f m = m\<lparr>cells := (cells m)(k := map_option f (cells m k))\<rparr>"

definition HexMap_startRotation :: "Hex \<times> Hex \<times> Hex \<Rightarrow> 'c HexMap \<Rightarrow> error + 'c HexMap" where
  "HexMap_startRotation hexes m =
     (let m = m\<lparr>rotation := Some hexes\<rparr> in
      case hexes of (rot0, rot1, rot2) \<Rightarrow>
        bind_err (HexMap_at m rot0) (\<lambda>_.
        bind_err (HexMap_at m rot1) (\<lambda>_.
        bind_err (HexMap_at m rot2) (\<lambda>_.
          (let m = modify (Hex_key rot1) (Cell_startRotation rot0) m;
               m = modify (Hex_key rot2) (Cell_startRotation rot1) m;
               m = modify (Hex_key rot0) (Cell_startRotation rot2) m
           in Inr m)))))"

text \<open>
  \<^verbatim>\<open>cells[h]\<close> inserts a default-constructed cell when the key is absent; \<open>fresh h\<close> is what
  the constructor would draw for it.
\<close>

definition HexMap_index :: "(Hex \<Rightarrow> 'c \<times> float32) \<Rightarrow> Hex \<Rightarrow> 'c HexMap \<Rightarrow> 'c HexMap" where
  "HexMap_index fresh h m =
     (case cells m (Hex_key h) of
        None \<Rightarrow> m\<lparr>cells := (cells m)(Hex_key h \<mapsto> Cell_ctor (fst (fresh h)) (snd (fresh h)))\<rparr>
      | Some _ \<Rightarrow> m)"

definition swap_cells :: "int \<times> int \<Rightarrow> int \<times> int \<Rightarrow> 'c HexMap \<Rightarrow> 'c HexMap" where
  "swap_cells k k' m =
     (case (cells m k, cells m k') of
        (Some a, Some b) \<Rightarrow> m\<lparr>cells := (cells m)(k \<mapsto> b, k' \<mapsto> a)\<rparr>
      | _ \<Rightarrow> m)"

text \<open>
  \<^verbatim>\<open>std::swap(cell, cells[*cell.rotatingTo])\<close> for the cell in slot \<open>k\<close>: the target is read
  from the cell that is in the slot at that moment.
\<close>

definition swap_to_target ::
    "(Hex \<Rightarrow> 'c \<times> float32) \<Rightarrow> int \<times> int \<Rightarrow> 'c HexMap \<Rightarrow> error + 'c HexMap" where
  "swap_to_target fresh k m =
     (case cells m k of
        None \<Rightarrow> Inl OutOfRange
      | Some c \<Rightarrow>
          (case rotatingTo c of
             None \<Rightarrow> Inl EmptyOptional
           | Some t \<Rightarrow> Inr (swap_cells k (Hex_key t) (HexMap_index fresh t m))))"

definition slot_done :: "int \<times> int \<Rightarrow> 'c HexMap \<Rightarrow> bool" where
  "slot_done k m = (case cells m k of None \<Rightarrow> False | Some c \<Rightarrow> Cell_rotationDone c)"

definition HexMap_stepRotation ::
    "(Hex \<Rightarrow> 'c \<times> float32) \<Rightarrow> float32 \<Rightarrow> 'c HexMap \<Rightarrow> error + 'c HexMap" where
  "HexMap_stepRotation fresh dt m =
     (case rotation m of
        None \<Rightarrow> Inr m
      | Some (rot0, rot1, rot2) \<Rightarrow>
          bind_err (HexMap_at m rot0) (\<lambda>_.
          bind_err (HexMap_at m rot1) (\<lambda>_.
          bind_err (HexMap_at m rot2) (\<lambda>_.
            (let k0 = Hex_key rot0; k1 = Hex_key rot1; k2 = Hex_key rot2;
                 m = modify k0 (Cell_stepRotation dt) m;
                 m = modify k1 (Cell_stepRotation dt) m;
                 m = modify k2 (Cell_stepRotation dt) m
             in if slot_done k0 m \<and> slot_done k1 m \<and> slot_done k2 m then
                  bind_err (swap_to_target fresh k0 m) (\<lambda>m.
                  bind_err (swap_to_target fresh k1 m) (\<lambda>m.
                  bind_err (swap_to_target fresh k2 m) (\<lambda>m.
                    (let m = modify k0 Cell_resetRotation m;
                         m = modify k1 Cell_resetRotation m;
                         m = modify k2 Cell_resetRotation m
                     in Inr (m\<lparr>rotation := None\<rparr>)))))
                else Inr m)))))"

text \<open>A run of \<^verbatim>\<open>stepRotation\<close> calls, one per frame, with the frame times \<open>dts\<close>.\<close>

fun stepRotations ::
    "(Hex \<Rightarrow> 'c \<times> float32) \<Rightarrow> float32 list \<Rightarrow> 'c HexMap \<Rightarrow> error + 'c HexMap" where
  "stepRotations fresh [] m = Inr m"
| "stepRotations fresh (dt # dts) m =
     bind_err (HexMap_stepRotation fresh dt m) (stepRotations fresh dts)"

section \<open>The cursor\<close>

record Cursor =
  hexes :: "Hex \<times> Hex \<times> Hex"

definition Cursor_ctor :: "Hex \<Rightarrow> error + Cursor" where
  "Cursor_ctor topHex =
     bind_err (hexNeighbour topHex NorthWest) (\<lambda>h1.
     bind_err (hexNeighbour topHex NorthEast) (\<lambda>h2.
     Inr \<lparr>hexes = (topHex, h1, h2)\<rparr>))"

definition Cursor_move :: "HexDirection \<Rightarrow> Cursor \<Rightarrow> error + Cursor" where
  "Cursor_move hexDir c = (case hexes c of (h0, h1, h2) \<Rightarrow>
     bind_err (hexNeighbour h0 hexDir) (\<lambda>h0'.
     bind_err (hexNeighbour h1 hexDir) (\<lambda>h1'.
     bind_err (hexNeighbour h2 hexDir) (\<lambda>h2'.
     Inr (c\<lparr>hexes := (h0', h1', h2')\<rparr>)))))"

text \<open>\<^verbatim>\<open>%\<close> truncates towards zero in C++: it is \<open>smod\<close>.\<close>

definition Cursor_moveUp :: "Cursor \<Rightarrow> error + Cursor" where
  "Cursor_moveUp c = (case hexes c of (h0, h1, h2) \<Rightarrow>
     if r h0 smod 2 = 0 then Cursor_move SouthEast c else Cursor_move SouthWest c)"

definition Cursor_moveDown :: "Cursor \<Rightarrow> error + Cursor" where
  "Cursor_moveDown c = (case hexes c of (h0, h1, h2) \<Rightarrow>
     if r h0 smod 2 = 0 then Cursor_move NorthEast c else Cursor_move NorthWest c)"

definition Cursor_moveLeft :: "Cursor \<Rightarrow> error + Cursor" where
  "Cursor_moveLeft c = Cursor_move West c"

definition Cursor_moveRight :: "Cursor \<Rightarrow> error + Cursor" where
  "Cursor_moveRight c = Cursor_move East c"

text \<open>The translation of a coordinate, and of a cursor, by a vector: what the claims speak of.\<close>

definition Hex_translate :: "int \<times> int \<times> int \<Rightarrow> Hex \<Rightarrow> Hex" where
  "Hex_translate v h = (case v of (dq, dr, ds) \<Rightarrow> \<lparr>q = q h + dq, r = r h + dr, s = s h + ds\<rparr>)"

definition Cursor_translate :: "int \<times> int \<times> int \<Rightarrow> Cursor \<Rightarrow> Cursor" where
  "Cursor_translate v c = (case hexes c of (h0, h1, h2) \<Rightarrow>
     c\<lparr>hexes := (Hex_translate v h0, Hex_translate v h1, Hex_translate v h2)\<rparr>)"

definition Cursor_valid :: "Cursor \<Rightarrow> bool" where
  "Cursor_valid c = (case hexes c of (h0, h1, h2) \<Rightarrow> Hex_valid h0 \<and> Hex_valid h1 \<and> Hex_valid h2)"

definition Cursor_top :: "Cursor \<Rightarrow> Hex" where
  "Cursor_top c = fst (hexes c)"

section \<open>Generating the grid\<close>

text \<open>
  The two nested loops of \<^verbatim>\<open>generateHexMap\<close>: the inner one over \<open>r\<close>, the outer one over
  \<open>q\<close>. The assertion of \<^verbatim>\<open>Hex(q, r, -q - r)\<close> cannot fail. \<open>fresh h\<close> is what the constructor
  \<^verbatim>\<open>Cell()\<close> draws for the cell inserted at \<open>h\<close>.
\<close>

function generateHexMap_r ::
    "(Hex \<Rightarrow> 'c \<times> float32) \<Rightarrow> int \<Rightarrow> int \<Rightarrow> int \<Rightarrow> 'c HexMap \<Rightarrow> 'c HexMap" where
  "generateHexMap_r fresh qv rv r2 hexMap =
     (if rv \<le> r2 then
        (let hex = \<lparr>q = qv, r = rv, s = - qv - rv\<rparr>
         in generateHexMap_r fresh qv (rv + 1) r2
              (HexMap_insert hex (Cell_ctor (fst (fresh hex)) (snd (fresh hex))) hexMap))
      else hexMap)"
  by pat_completeness auto
termination
  by (relation "measure (\<lambda>(fresh, qv, rv, r2, hexMap). nat (r2 + 1 - rv))") auto

function generateHexMap_q ::
    "(Hex \<Rightarrow> 'c \<times> float32) \<Rightarrow> int \<Rightarrow> int \<Rightarrow> 'c HexMap \<Rightarrow> 'c HexMap" where
  "generateHexMap_q fresh size_in qv hexMap =
     (if qv \<le> size_in then
        (let r1 = max (- size_in) (- qv - size_in); r2 = min size_in (- qv + size_in)
         in generateHexMap_q fresh size_in (qv + 1) (generateHexMap_r fresh qv r1 r2 hexMap))
      else hexMap)"
  by pat_completeness auto
termination
  by (relation "measure (\<lambda>(fresh, size_in, qv, hexMap). nat (size_in + 1 - qv))") auto

declare generateHexMap_r.simps [simp del] generateHexMap_q.simps [simp del]

definition generateHexMap :: "(Hex \<Rightarrow> 'c \<times> float32) \<Rightarrow> int \<Rightarrow> 'c HexMap" where
  "generateHexMap fresh size_in = generateHexMap_q fresh size_in (- size_in) HexMap_ctor"

section \<open>Notions of the specification\<close>

text \<open>The progress of a cell after one step: advanced by \<open>dt * 4\<close>, clamped at \<open>1\<close>.\<close>

definition advance :: "float32 \<Rightarrow> float32 \<Rightarrow> float32" where
  "advance dt p =
     (let n = fadd p (fmul dt (Finite 4)) in if fgt n (Finite 1) then Finite 1 else n)"

text \<open>
  The progress accumulated over the frame times \<open>dts\<close> from the progress \<open>p\<close>: \<open>None\<close> as soon
  as it has reached \<open>1\<close>.
\<close>

fun run_progress :: "float32 list \<Rightarrow> float32 \<Rightarrow> float32 option" where
  "run_progress [] p = Some p"
| "run_progress (dt # dts) p =
     (let p' = advance dt p in if fge p' (Finite 1) then None else run_progress dts p')"

definition HexMap_color :: "'c HexMap \<Rightarrow> Hex \<Rightarrow> 'c option" where
  "HexMap_color m h = map_option color (cells m (Hex_key h))"

definition Cell_idle :: "'c Cell \<Rightarrow> bool" where
  "Cell_idle c = (rotatingTo c = None)"

text \<open>
  The grid \<open>g\<close> with the rotation of the cells at \<open>h0\<close>, \<open>h1\<close>, \<open>h2\<close> in flight at progress \<open>p\<close>,
  and the grid \<open>g\<close> with the rotation committed.
\<close>

definition in_flight :: "'c HexMap \<Rightarrow> Hex \<Rightarrow> Hex \<Rightarrow> Hex \<Rightarrow> float32 \<Rightarrow> 'c HexMap" where
  "in_flight g h0 h1 h2 p =
     g\<lparr>cells := (cells g)
          (Hex_key h0 := map_option (\<lambda>c. c\<lparr>rotatingTo := Some h2, rotationProgress := p\<rparr>)
             (cells g (Hex_key h0)),
           Hex_key h1 := map_option (\<lambda>c. c\<lparr>rotatingTo := Some h0, rotationProgress := p\<rparr>)
             (cells g (Hex_key h1)),
           Hex_key h2 := map_option (\<lambda>c. c\<lparr>rotatingTo := Some h1, rotationProgress := p\<rparr>)
             (cells g (Hex_key h2))),
       rotation := Some (h0, h1, h2)\<rparr>"

definition rotated :: "'c HexMap \<Rightarrow> Hex \<Rightarrow> Hex \<Rightarrow> Hex \<Rightarrow> 'c HexMap" where
  "rotated g h0 h1 h2 =
     g\<lparr>cells := (cells g)
          (Hex_key h0 := map_option (\<lambda>c. c\<lparr>rotatingTo := None, rotationProgress := Finite (- 1)\<rparr>)
             (cells g (Hex_key h1)),
           Hex_key h1 := map_option (\<lambda>c. c\<lparr>rotatingTo := None, rotationProgress := Finite (- 1)\<rparr>)
             (cells g (Hex_key h2)),
           Hex_key h2 := map_option (\<lambda>c. c\<lparr>rotatingTo := None, rotationProgress := Finite (- 1)\<rparr>)
             (cells g (Hex_key h0))),
       rotation := None\<rparr>"

text \<open>
  A Rotating grid whose descriptor names three pairwise distinct coordinates, with the cells
  \<open>c0\<close>, \<open>c1\<close>, \<open>c2\<close> stored there, each with the target that \<^verbatim>\<open>startRotation\<close> gave it.
  This is the Rotating state that \<^verbatim>\<open>startRotation\<close> produces from three distinct coordinates;
  a descriptor with a repeated coordinate is Rotating as well, and is not covered.
\<close>

definition Rotating_distinct :: "'c HexMap \<Rightarrow> Hex \<Rightarrow> Hex \<Rightarrow> Hex \<Rightarrow> 'c Cell \<Rightarrow> 'c Cell \<Rightarrow> 'c Cell \<Rightarrow> bool" where
  "Rotating_distinct m h0 h1 h2 c0 c1 c2 =
     (rotation m = Some (h0, h1, h2) \<and>
      Hex_key h0 \<noteq> Hex_key h1 \<and> Hex_key h0 \<noteq> Hex_key h2 \<and> Hex_key h1 \<noteq> Hex_key h2 \<and>
      cells m (Hex_key h0) = Some c0 \<and> cells m (Hex_key h1) = Some c1 \<and>
      cells m (Hex_key h2) = Some c2 \<and>
      rotatingTo c0 = Some h2 \<and> rotatingTo c1 = Some h0 \<and> rotatingTo c2 = Some h1)"

text \<open>
  The states the grid can reach: from a generated grid, by \<^verbatim>\<open>insert\<close> of a cell that
  satisfies \<open>ok\<close>, by \<^verbatim>\<open>startRotation\<close> under its preconditions (no rotation is active and
  the three coordinates are keys of the grid), and by \<^verbatim>\<open>stepRotation\<close>.
\<close>

inductive reachable :: "('c Cell \<Rightarrow> bool) \<Rightarrow> 'c HexMap \<Rightarrow> bool" for ok :: "'c Cell \<Rightarrow> bool" where
  generated: "reachable ok (generateHexMap fresh size_in)"
| inserted: "reachable ok m \<Longrightarrow> ok cell \<Longrightarrow> reachable ok (HexMap_insert hex cell m)"
| started: "reachable ok m \<Longrightarrow> rotation m = None \<Longrightarrow>
     cells m (Hex_key h0) \<noteq> None \<Longrightarrow> cells m (Hex_key h1) \<noteq> None \<Longrightarrow>
     cells m (Hex_key h2) \<noteq> None \<Longrightarrow>
     HexMap_startRotation (h0, h1, h2) m = Inr m' \<Longrightarrow> reachable ok m'"
| stepped: "reachable ok m \<Longrightarrow> HexMap_stepRotation fresh dt m = Inr m' \<Longrightarrow> reachable ok m'"

text \<open>
  The cells named by the descriptor are in the grid and each has a target among the three
  coordinates; no other cell of the grid has a target.
\<close>

definition descriptor_keys :: "Hex \<times> Hex \<times> Hex \<Rightarrow> (int \<times> int) set" where
  "descriptor_keys d = (case d of (h0, h1, h2) \<Rightarrow> {Hex_key h0, Hex_key h1, Hex_key h2})"

definition targets_in :: "(int \<times> int) set \<Rightarrow> 'c HexMap \<Rightarrow> bool" where
  "targets_in S m =
     (\<forall>k \<in> S. \<exists>c t. cells m k = Some c \<and> rotatingTo c = Some t \<and> Hex_key t \<in> S)"

definition rotation_wf :: "'c HexMap \<Rightarrow> bool" where
  "rotation_wf m =
     (case rotation m of None \<Rightarrow> True | Some d \<Rightarrow> targets_in (descriptor_keys d) m)"

definition no_stray :: "'c HexMap \<Rightarrow> bool" where
  "no_stray m =
     (\<forall>k c. cells m k = Some c \<longrightarrow> rotatingTo c \<noteq> None \<longrightarrow>
        (\<exists>d. rotation m = Some d \<and> k \<in> descriptor_keys d))"

text \<open>No rotation is active and no cell has a target.\<close>

definition all_idle :: "'c HexMap \<Rightarrow> bool" where
  "all_idle m = (rotation m = None \<and> (\<forall>k c. cells m k = Some c \<longrightarrow> rotatingTo c = None))"

text \<open>The grid \<open>m'\<close> has the keys of \<open>m\<close> and the same cell as \<open>m\<close> under every key outside \<open>S\<close>.\<close>

definition same_outside :: "(int \<times> int) set \<Rightarrow> 'c HexMap \<Rightarrow> 'c HexMap \<Rightarrow> bool" where
  "same_outside S m m' =
     (dom (cells m') = dom (cells m) \<and> (\<forall>k. k \<notin> S \<longrightarrow> cells m' k = cells m k))"

text \<open>The values of \<open>r\<close> that \<^verbatim>\<open>generateHexMap\<close> visits in the column \<open>a\<close> of a grid of size \<open>n\<close>.\<close>

definition hex_rows :: "int \<Rightarrow> int \<Rightarrow> int set" where
  "hex_rows n a = {max (- n) (- a - n)..min n (- a + n)}"

text \<open>
  \<^verbatim>\<open>startRotation\<close> followed by a run of \<^verbatim>\<open>stepRotation\<close> calls, and what is observed of the
  outcome: whether a rotation is active, and the colour, the target and the progress of the
  cell at a coordinate.
\<close>

definition rotate_run ::
    "(Hex \<Rightarrow> 'c \<times> float32) \<Rightarrow> Hex \<times> Hex \<times> Hex \<Rightarrow> float32 list \<Rightarrow> 'c HexMap \<Rightarrow> error + 'c HexMap" where
  "rotate_run fresh d dts g = bind_err (HexMap_startRotation d g) (stepRotations fresh dts)"

definition result_rotating :: "error + 'c HexMap \<Rightarrow> bool" where
  "result_rotating res = (case res of Inl e \<Rightarrow> False | Inr m \<Rightarrow> HexMap_hasRotation m)"

definition result_idle :: "error + 'c HexMap \<Rightarrow> bool" where
  "result_idle res = (case res of Inl e \<Rightarrow> False | Inr m \<Rightarrow> \<not> HexMap_hasRotation m)"

definition result_color :: "error + 'c HexMap \<Rightarrow> Hex \<Rightarrow> 'c option" where
  "result_color res h = (case res of Inl e \<Rightarrow> None | Inr m \<Rightarrow> HexMap_color m h)"

definition result_target :: "error + 'c HexMap \<Rightarrow> Hex \<Rightarrow> Hex option" where
  "result_target res h =
     (case res of Inl e \<Rightarrow> None
      | Inr m \<Rightarrow> (case cells m (Hex_key h) of None \<Rightarrow> None | Some c \<Rightarrow> rotatingTo c))"

definition result_progress :: "error + 'c HexMap \<Rightarrow> Hex \<Rightarrow> float32 option" where
  "result_progress res h =
     (case res of Inl e \<Rightarrow> None | Inr m \<Rightarrow> map_option rotationProgress (cells m (Hex_key h)))"

text \<open>The rational number that a finite \<^verbatim>\<open>float\<close> denotes.\<close>

fun float_value :: "float32 \<Rightarrow> rat" where
  "float_value (Finite x) = x"
| "float_value _ = 0"

section \<open>Example grids\<close>

text \<open>
  A grid of four cells, coloured \<open>1\<close>, \<open>2\<close>, \<open>3\<close> and \<open>4\<close>; the first three are adjacent.
\<close>

definition hexA :: Hex where "hexA = \<lparr>q = 0, r = 0, s = 0\<rparr>"
definition hexB :: Hex where "hexB = \<lparr>q = - 1, r = 1, s = 0\<rparr>"
definition hexC :: Hex where "hexC = \<lparr>q = 0, r = 1, s = - 1\<rparr>"
definition hexD :: Hex where "hexD = \<lparr>q = 2, r = 0, s = - 2\<rparr>"

definition example_fresh :: "Hex \<Rightarrow> nat \<times> float32" where
  "example_fresh h = (0, NaN)"

definition example_grid :: "nat HexMap" where
  "example_grid =
     HexMap_insert hexD (Cell_ctor 4 NaN)
       (HexMap_insert hexC (Cell_ctor 3 NaN)
         (HexMap_insert hexB (Cell_ctor 2 NaN)
           (HexMap_insert hexA (Cell_ctor 1 NaN) HexMap_ctor)))"

text \<open>
  A grid reached from the generated grid of size \<open>0\<close> by two calls of \<^verbatim>\<open>insert\<close> and one of
  \<^verbatim>\<open>startRotation\<close>.
\<close>

definition example_inserted :: "nat HexMap" where
  "example_inserted =
     HexMap_insert hexC (Cell_ctor 3 NaN)
       (HexMap_insert hexB (Cell_ctor 2 NaN) (generateHexMap example_fresh 0))"

definition example_reached :: "nat HexMap" where
  "example_reached = in_flight example_inserted hexA hexB hexC (Finite 0)"

section \<open>Properties of the cursor\<close>

lemma smod_2_eq_0_iff: "(k smod 2 = 0) = even k" for k :: int
proof -
  have "k smod 2 = sgn k * (\<bar>k\<bar> mod 2)"
    by (simp add: smod_int_alt_def)
  then show ?thesis
    by (auto simp: sgn_if even_iff_mod_2_eq_zero)
qed

lemma hexDirection_simps:
  "hexDirection East = \<lparr>q = 1, r = 0, s = - 1\<rparr>"
  "hexDirection SouthEast = \<lparr>q = 1, r = - 1, s = 0\<rparr>"
  "hexDirection SouthWest = \<lparr>q = 0, r = - 1, s = 1\<rparr>"
  "hexDirection West = \<lparr>q = - 1, r = 0, s = 1\<rparr>"
  "hexDirection NorthWest = \<lparr>q = - 1, r = 1, s = 0\<rparr>"
  "hexDirection NorthEast = \<lparr>q = 0, r = 1, s = - 1\<rparr>"
  by (simp_all add: hexDirection_def hex_directions_def)

lemma hexDirection_valid: "Hex_valid (hexDirection d)"
  by (cases d) (simp_all add: hexDirection_simps Hex_valid_def)

lemma hexNeighbour_valid:
  "Hex_valid h \<Longrightarrow>
   hexNeighbour h d = Inr \<lparr>q = q h + q (hexDirection d), r = r h + r (hexDirection d),
     s = s h + s (hexDirection d)\<rparr>"
  using hexDirection_valid [of d]
  by (simp add: hexNeighbour_def hexAdd_def Hex_ctor_def Hex_valid_def)

lemma Cursor_move_valid:
  assumes "Cursor_valid c"
  shows "Cursor_move d c =
    Inr (Cursor_translate (q (hexDirection d), r (hexDirection d), s (hexDirection d)) c)"
  using assms
  by (cases "hexes c")
    (simp add: Cursor_valid_def Cursor_move_def Cursor_translate_def Hex_translate_def
      hexNeighbour_valid bind_err_def)

lemma Cursor_translate_valid:
  "Cursor_valid c \<Longrightarrow> dq + dr + ds = 0 \<Longrightarrow> Cursor_valid (Cursor_translate (dq, dr, ds) c)"
  by (cases "hexes c") (simp add: Cursor_valid_def Cursor_translate_def Hex_translate_def Hex_valid_def)

lemma Cursor_top_translate:
  "r (Cursor_top (Cursor_translate (dq, dr, ds) c)) = r (Cursor_top c) + dr"
  by (cases "hexes c") (simp add: Cursor_top_def Cursor_translate_def Hex_translate_def)

lemma Cursor_translate_back:
  "Cursor_translate (- dq, - dr, - ds) (Cursor_translate (dq, dr, ds) c) = c"
  by (cases "hexes c") (simp add: Cursor_translate_def Hex_translate_def)

lemma Cursor_moveUp_valid:
  assumes "Cursor_valid c"
  shows "Cursor_moveUp c =
    Inr (Cursor_translate (if even (r (Cursor_top c)) then (1, - 1, 0) else (0, - 1, 1)) c)"
  using assms
  by (cases "hexes c")
    (simp add: Cursor_moveUp_def Cursor_move_valid smod_2_eq_0_iff hexDirection_simps
      Cursor_top_def)

lemma Cursor_moveDown_valid:
  assumes "Cursor_valid c"
  shows "Cursor_moveDown c =
    Inr (Cursor_translate (if even (r (Cursor_top c)) then (0, 1, - 1) else (- 1, 1, 0)) c)"
  using assms
  by (cases "hexes c")
    (simp add: Cursor_moveDown_def Cursor_move_valid smod_2_eq_0_iff hexDirection_simps
      Cursor_top_def)

lemma Cursor_ctor_valid:
  assumes "Hex_valid T"
  shows "\<exists>c. Cursor_ctor T = Inr c \<and> Cursor_valid c \<and> Cursor_top c = T"
  using assms
  by (simp add: Cursor_ctor_def hexNeighbour_valid bind_err_def Cursor_valid_def
      Cursor_top_def Hex_valid_def hexDirection_simps)

text \<open>
  Claim C6. For a cursor whose coordinates satisfy \<open>q + r + s = 0\<close> and whose top coordinate
  is \<open>T\<close>: \<^verbatim>\<open>moveUp\<close> translates all three coordinates by the SouthEast vector \<open>(1, -1, 0)\<close> when
  \<open>T.r\<close> is even and by the SouthWest vector \<open>(0, -1, 1)\<close> when it is odd; \<^verbatim>\<open>moveDown\<close>
  translates them by NorthEast \<open>(0, 1, -1)\<close> when \<open>T.r\<close> is even and by NorthWest
  \<open>(-1, 1, 0)\<close> when it is odd.
\<close>

theorem C6_moveUp_moveDown_direction:
  assumes "Cursor_valid c"
  shows "(even (r (Cursor_top c)) \<longrightarrow>
            Cursor_moveUp c = Inr (Cursor_translate (1, - 1, 0) c) \<and>
            Cursor_moveDown c = Inr (Cursor_translate (0, 1, - 1) c)) \<and>
         (odd (r (Cursor_top c)) \<longrightarrow>
            Cursor_moveUp c = Inr (Cursor_translate (0, - 1, 1) c) \<and>
            Cursor_moveDown c = Inr (Cursor_translate (- 1, 1, 0) c))"
  using assms by (simp add: Cursor_moveUp_valid Cursor_moveDown_valid)

theorem C6_witness:
  "Cursor_valid \<lparr>hexes = (\<lparr>q = 2, r = 2, s = - 4\<rparr>, \<lparr>q = 1, r = 3, s = - 4\<rparr>, \<lparr>q = 2, r = 3, s = - 5\<rparr>)\<rparr> \<and>
   Cursor_valid \<lparr>hexes = (\<lparr>q = 1, r = 3, s = - 4\<rparr>, \<lparr>q = 0, r = 4, s = - 4\<rparr>, \<lparr>q = 1, r = 4, s = - 5\<rparr>)\<rparr> \<and>
   Cursor_moveUp \<lparr>hexes = (\<lparr>q = 2, r = 2, s = - 4\<rparr>, \<lparr>q = 1, r = 3, s = - 4\<rparr>, \<lparr>q = 2, r = 3, s = - 5\<rparr>)\<rparr> =
     Inr \<lparr>hexes = (\<lparr>q = 3, r = 1, s = - 4\<rparr>, \<lparr>q = 2, r = 2, s = - 4\<rparr>, \<lparr>q = 3, r = 2, s = - 5\<rparr>)\<rparr> \<and>
   Cursor_moveDown \<lparr>hexes = (\<lparr>q = 1, r = 3, s = - 4\<rparr>, \<lparr>q = 0, r = 4, s = - 4\<rparr>, \<lparr>q = 1, r = 4, s = - 5\<rparr>)\<rparr> =
     Inr \<lparr>hexes = (\<lparr>q = 0, r = 4, s = - 4\<rparr>, \<lparr>q = - 1, r = 5, s = - 4\<rparr>, \<lparr>q = 0, r = 5, s = - 5\<rparr>)\<rparr>"
proof -
  let ?c = "\<lparr>hexes = (\<lparr>q = 2, r = 2, s = - 4\<rparr>, \<lparr>q = 1, r = 3, s = - 4\<rparr>, \<lparr>q = 2, r = 3, s = - 5\<rparr>)\<rparr>"
  let ?d = "\<lparr>hexes = (\<lparr>q = 1, r = 3, s = - 4\<rparr>, \<lparr>q = 0, r = 4, s = - 4\<rparr>, \<lparr>q = 1, r = 4, s = - 5\<rparr>)\<rparr>"
  have c: "Cursor_valid ?c" and d: "Cursor_valid ?d"
    by (simp_all add: Cursor_valid_def Hex_valid_def)
  show ?thesis
    using c d C6_moveUp_moveDown_direction [OF c] C6_moveUp_moveDown_direction [OF d]
    by (simp add: Cursor_top_def Cursor_translate_def Hex_translate_def)
qed

text \<open>
  Claim C7. From every top coordinate with \<open>q + r + s = 0\<close> the cursor is constructed, and
  \<^verbatim>\<open>moveUp\<close> followed by \<^verbatim>\<open>moveDown\<close>, as well as \<^verbatim>\<open>moveDown\<close> followed by \<^verbatim>\<open>moveUp\<close>,
  returns it to exactly its original three coordinates.
\<close>

theorem C7_moveUp_moveDown_roundtrip:
  assumes "Hex_valid T"
  shows "\<exists>c. Cursor_ctor T = Inr c \<and>
     bind_err (Cursor_moveUp c) Cursor_moveDown = Inr c \<and>
     bind_err (Cursor_moveDown c) Cursor_moveUp = Inr c"
proof -
  from Cursor_ctor_valid [OF assms] obtain c
    where c: "Cursor_ctor T = Inr c" "Cursor_valid c" by blast
  have up: "bind_err (Cursor_moveUp c) Cursor_moveDown = Inr c"
  proof (cases "even (r (Cursor_top c))")
    case True
    have v: "Cursor_valid (Cursor_translate (1, - 1, 0) c)"
      using c(2) by (rule Cursor_translate_valid) simp
    show ?thesis
      using True Cursor_translate_back [of 1 "- 1" 0 c]
      by (simp add: Cursor_moveUp_valid [OF c(2)] Cursor_moveDown_valid [OF v] bind_err_def
          Cursor_top_translate)
  next
    case False
    have v: "Cursor_valid (Cursor_translate (0, - 1, 1) c)"
      using c(2) by (rule Cursor_translate_valid) simp
    show ?thesis
      using False Cursor_translate_back [of 0 "- 1" 1 c]
      by (simp add: Cursor_moveUp_valid [OF c(2)] Cursor_moveDown_valid [OF v] bind_err_def
          Cursor_top_translate)
  qed
  have down: "bind_err (Cursor_moveDown c) Cursor_moveUp = Inr c"
  proof (cases "even (r (Cursor_top c))")
    case True
    have v: "Cursor_valid (Cursor_translate (0, 1, - 1) c)"
      using c(2) by (rule Cursor_translate_valid) simp
    show ?thesis
      using True Cursor_translate_back [of 0 1 "- 1" c]
      by (simp add: Cursor_moveDown_valid [OF c(2)] Cursor_moveUp_valid [OF v] bind_err_def
          Cursor_top_translate)
  next
    case False
    have v: "Cursor_valid (Cursor_translate (- 1, 1, 0) c)"
      using c(2) by (rule Cursor_translate_valid) simp
    show ?thesis
      using False Cursor_translate_back [of "- 1" 1 0 c]
      by (simp add: Cursor_moveDown_valid [OF c(2)] Cursor_moveUp_valid [OF v] bind_err_def
          Cursor_top_translate)
  qed
  from c(1) up down show ?thesis by blast
qed

theorem C7_witness:
  "Hex_valid \<lparr>q = 2, r = 2, s = - 4\<rparr> \<and>
   (\<exists>c. Cursor_ctor \<lparr>q = 2, r = 2, s = - 4\<rparr> = Inr c \<and>
     bind_err (Cursor_moveUp c) Cursor_moveDown = Inr c \<and>
     bind_err (Cursor_moveDown c) Cursor_moveUp = Inr c)"
proof -
  have v: "Hex_valid \<lparr>q = 2, r = 2, s = - 4\<rparr>"
    by (simp add: Hex_valid_def)
  show ?thesis
    using v C7_moveUp_moveDown_roundtrip [OF v] by simp
qed

section \<open>Properties of the rounding\<close>

lemma bitlen_rat_bounds:
  assumes "0 < (a::int)"
  shows "(2::rat) powi (bitlen a - 1) \<le> of_int a" "of_int a < (2::rat) powi bitlen a"
proof -
  from assms have b: "2 ^ nat (bitlen a - 1) \<le> a" "a < 2 ^ nat (bitlen a)"
    using bitlen_bounds [of a] by auto
  from assms have ge: "1 \<le> bitlen a"
    by (simp add: bitlen_alt_def)
  have "(of_int (2 ^ nat (bitlen a - 1)) :: rat) \<le> of_int a"
    using b(1) by (simp only: of_int_le_iff)
  then show "(2::rat) powi (bitlen a - 1) \<le> of_int a"
    using ge by (simp add: power_int_def)
  have "(of_int a :: rat) < of_int (2 ^ nat (bitlen a))"
    using b(2) by (simp only: of_int_less_iff)
  then show "of_int a < (2::rat) powi bitlen a"
    using ge by (simp add: power_int_def)
qed

lemma ilog2_bounds:
  assumes "0 < x"
  shows "2 powi ilog2 x \<le> x" "x < 2 powi (ilog2 x + 1)"
proof -
  obtain a b where ab: "quotient_of x = (a, b)"
    by (cases "quotient_of x")
  then have bpos: "0 < b" and x: "x = of_int a / of_int b"
    by (simp_all add: quotient_of_denom_pos quotient_of_div)
  from assms x bpos have apos: "0 < a"
    by (simp add: zero_less_divide_iff)
  define d where "d = bitlen a - bitlen b"
  have lo: "(2::rat) powi (d - 1) \<le> x"
  proof -
    have "(2::rat) powi (d - 1) = 2 powi (bitlen a - 1) / 2 powi bitlen b"
      by (simp add: d_def power_int_diff)
    also have "\<dots> \<le> of_int a / 2 powi bitlen b"
      using bitlen_rat_bounds(1) [OF apos] by (simp add: divide_right_mono)
    also have "\<dots> \<le> of_int a / of_int b"
      using bitlen_rat_bounds(2) [OF bpos] apos bpos by (simp add: frac_le)
    finally show ?thesis by (simp add: x)
  qed
  have hi: "x < (2::rat) powi (d + 1)"
  proof -
    have "x = of_int a / of_int b" by (fact x)
    also have "\<dots> < 2 powi bitlen a / of_int b"
      using bitlen_rat_bounds(2) [OF apos] bpos by (simp add: divide_strict_right_mono)
    also have "\<dots> \<le> 2 powi bitlen a / 2 powi (bitlen b - 1)"
      using bitlen_rat_bounds(1) [OF bpos] by (simp add: frac_le)
    also have "\<dots> = 2 powi (d + 1)"
      by (simp add: d_def power_int_diff power_int_add)
    finally show ?thesis .
  qed
  have e: "ilog2 x = (if 2 powi d \<le> x then d else d - 1)"
    by (simp add: ilog2_def ab d_def Let_def)
  show "2 powi ilog2 x \<le> x"
    using lo by (simp add: e)
  show "x < 2 powi (ilog2 x + 1)"
    using hi by (simp add: e not_le)
qed

lemma round_even_ge:
  assumes "of_int k \<le> x"
  shows "k \<le> round_even x"
proof -
  from assms have "k \<le> \<lfloor>x\<rfloor>" by (simp add: le_floor_iff)
  then show ?thesis by (simp add: round_even_def Let_def)
qed

lemma round32_cases:
  assumes "l \<le> x" "l = 0 \<or> l = 1"
  shows "round32 x = PInf \<or> (\<exists>y. round32 x = Finite y \<and> l \<le> y)"
proof (cases "x = 0")
  case True
  with assms show ?thesis by (auto simp: round32_def)
next
  case False
  with assms have pos: "0 < x" by auto
  define e where "e = max (ilog2 x) (- 126)"
  define u :: rat where "u = 2 powi (e - 23)"
  define y where "y = of_int (round_even (x / u)) * u"
  have upos: "0 < u" by (simp add: u_def)
  have r: "round32 x = (if 2 ^ 128 \<le> y then PInf else Finite y)"
    using pos by (simp add: round32_def Let_def e_def u_def y_def)
  have "0 \<le> x / u" using pos upos by simp
  then have "0 \<le> round_even (x / u)"
    using round_even_ge [of 0 "x / u"] by simp
  then have y0: "0 \<le> y" using upos by (simp add: y_def)
  have y1: "1 \<le> y" if "1 \<le> x"
  proof -
    from that ilog2_bounds(2) [OF pos] have gt: "(1::rat) < 2 powi (ilog2 x + 1)" by simp
    have "0 \<le> ilog2 x"
    proof (rule ccontr)
      assume "\<not> 0 \<le> ilog2 x"
      then have "ilog2 x + 1 \<le> 0" by simp
      then have "(2::rat) powi (ilog2 x + 1) \<le> 2 powi 0"
        by (intro power_int_increasing) simp_all
      with gt show False by simp
    qed
    then have e: "e = ilog2 x" by (simp add: e_def)
    have "(2::rat) powi 23 * u = 2 powi ilog2 x"
      unfolding u_def e by (subst power_int_add [symmetric]) simp_all
    then have pu: "(2::rat) ^ 23 * u = 2 powi ilog2 x" by simp
    then have "of_int (2 ^ 23) \<le> x / u"
      using ilog2_bounds(1) [OF pos] upos by (simp add: pos_le_divide_eq)
    then have "2 ^ 23 \<le> round_even (x / u)"
      by (rule round_even_ge)
    then have "(of_int (2 ^ 23) :: rat) \<le> of_int (round_even (x / u))"
      by (simp only: of_int_le_iff)
    then have "(2::rat) ^ 23 * u \<le> y"
      using upos by (simp add: y_def)
    moreover have "(1::rat) \<le> 2 powi ilog2 x"
      using \<open>0 \<le> ilog2 x\<close> by simp
    ultimately show ?thesis using pu by simp
  qed
  from assms(2) y0 y1 assms(1) show ?thesis
    by (auto simp: r)
qed

lemma fmul_4_nonneg:
  assumes "fge dt (Finite l)" "l = 0 \<or> l = 1 / 4"
  shows "fmul dt (Finite 4) = PInf \<or> (\<exists>z. fmul dt (Finite 4) = Finite z \<and> 4 * l \<le> z)"
proof (cases dt)
  case (Finite d)
  with assms(1) have "4 * l \<le> d * 4" by (simp add: fge_def)
  moreover from assms(2) have "4 * l = 0 \<or> 4 * l = 1" by auto
  ultimately show ?thesis
    using round32_cases [of "4 * l" "d * 4"] by (simp add: Finite)
qed (use assms in \<open>simp_all add: fge_def\<close>)

lemma advance_nonneg:
  assumes "fge dt (Finite 0)" "0 \<le> x"
  shows "\<exists>y. advance dt (Finite x) = Finite y \<and> 0 \<le> y \<and> y \<le> 1"
proof -
  from fmul_4_nonneg [OF assms(1)] consider "fmul dt (Finite 4) = PInf"
    | z where "fmul dt (Finite 4) = Finite z" "0 \<le> z" by auto
  then show ?thesis
  proof cases
    case 1
    then show ?thesis by (simp add: advance_def fgt_def)
  next
    case 2
    with assms(2) have "0 \<le> x + z" by simp
    from round32_cases [OF this] 2(1) show ?thesis
      by (auto simp: advance_def fgt_def Let_def)
  qed
qed

lemma advance_done:
  assumes "fge dt (Finite (1 / 4))" "0 \<le> x"
  shows "advance dt (Finite x) = Finite 1"
proof -
  from fmul_4_nonneg [OF assms(1)] consider "fmul dt (Finite 4) = PInf"
    | z where "fmul dt (Finite 4) = Finite z" "1 \<le> z" by auto
  then show ?thesis
  proof cases
    case 1
    then show ?thesis by (simp add: advance_def fgt_def)
  next
    case 2
    with assms(2) have "1 \<le> x + z" by simp
    from round32_cases [OF this] 2(1) show ?thesis
      by (auto simp: advance_def fgt_def Let_def)
  qed
qed

lemma advance_le_1: "\<not> fgt (advance dt p) (Finite 1)"
  by (simp add: advance_def Let_def fgt_def)








section \<open>Properties of the rotation\<close>

lemma HexMap_startRotation_distinct:
  assumes "cells m (Hex_key h0) = Some c0" "cells m (Hex_key h1) = Some c1"
    "cells m (Hex_key h2) = Some c2"
    "Hex_key h0 \<noteq> Hex_key h1" "Hex_key h0 \<noteq> Hex_key h2" "Hex_key h1 \<noteq> Hex_key h2"
  shows "HexMap_startRotation (h0, h1, h2) m =
    Inr (m\<lparr>cells := (cells m)(Hex_key h1 \<mapsto> Cell_startRotation h0 c1,
               Hex_key h2 \<mapsto> Cell_startRotation h1 c2, Hex_key h0 \<mapsto> Cell_startRotation h2 c0),
            rotation := Some (h0, h1, h2)\<rparr>)"
  using assms
  by (simp add: HexMap_startRotation_def HexMap_at_def bind_err_def modify_def Let_def)

lemma HexMap_stepRotation_distinct:
  assumes "rotation m = Some (h0, h1, h2)"
    "cells m (Hex_key h0) = Some c0" "cells m (Hex_key h1) = Some c1"
    "cells m (Hex_key h2) = Some c2"
    "Hex_key h0 \<noteq> Hex_key h1" "Hex_key h0 \<noteq> Hex_key h2" "Hex_key h1 \<noteq> Hex_key h2"
    "rotatingTo c0 = Some t0" "Hex_key t0 = Hex_key h2"
    "rotatingTo c1 = Some t1" "Hex_key t1 = Hex_key h0"
    "rotatingTo c2 = Some t2" "Hex_key t2 = Hex_key h1"
  shows "HexMap_stepRotation fresh dt m =
    Inr (if Cell_rotationDone (Cell_stepRotation dt c0) \<and>
            Cell_rotationDone (Cell_stepRotation dt c1) \<and>
            Cell_rotationDone (Cell_stepRotation dt c2)
         then m\<lparr>cells := (cells m)
                  (Hex_key h0 \<mapsto> Cell_resetRotation (Cell_stepRotation dt c1),
                   Hex_key h1 \<mapsto> Cell_resetRotation (Cell_stepRotation dt c2),
                   Hex_key h2 \<mapsto> Cell_resetRotation (Cell_stepRotation dt c0)),
                rotation := None\<rparr>
         else m\<lparr>cells := (cells m)
                  (Hex_key h0 \<mapsto> Cell_stepRotation dt c0,
                   Hex_key h1 \<mapsto> Cell_stepRotation dt c1,
                   Hex_key h2 \<mapsto> Cell_stepRotation dt c2)\<rparr>)"
proof -
  have rt: "rotatingTo (Cell_stepRotation dt c) = rotatingTo c" for c :: "'a Cell"
    by (simp add: Cell_stepRotation_def Let_def)
  show ?thesis
    using assms
    by (auto simp add: HexMap_stepRotation_def HexMap_at_def bind_err_def modify_def Let_def
      slot_done_def swap_to_target_def HexMap_index_def swap_cells_def rt fun_upd_twist
      intro!: HexMap.equality ext)
qed


lemma Cell_stepRotation_advance:
  "rotatingTo c \<noteq> None \<Longrightarrow>
   Cell_stepRotation dt c = c\<lparr>rotationProgress := advance dt (rotationProgress c)\<rparr>"
  by (simp add: Cell_stepRotation_def advance_def Let_def)

lemma HexMap_stepRotation_idle:
  "rotation m = None \<Longrightarrow> HexMap_stepRotation fresh dt m = Inr m"
  by (simp add: HexMap_stepRotation_def)

lemma stepRotations_idle:
  "rotation m = None \<Longrightarrow> stepRotations fresh dts m = Inr m"
  by (induction dts) (simp_all add: HexMap_stepRotation_idle bind_err_def)

lemma HexMap_startRotation_in_flight:
  assumes "cells g (Hex_key h0) \<noteq> None" "cells g (Hex_key h1) \<noteq> None"
    "cells g (Hex_key h2) \<noteq> None"
    "Hex_key h0 \<noteq> Hex_key h1" "Hex_key h0 \<noteq> Hex_key h2" "Hex_key h1 \<noteq> Hex_key h2"
  shows "HexMap_startRotation (h0, h1, h2) g = Inr (in_flight g h0 h1 h2 (Finite 0))"
proof -
  from assms obtain c0 c1 c2 where c: "cells g (Hex_key h0) = Some c0"
    "cells g (Hex_key h1) = Some c1" "cells g (Hex_key h2) = Some c2" by auto
  show ?thesis
    using assms(4-6)
    by (simp add: HexMap_startRotation_distinct [OF c assms(4-6)] in_flight_def c
        Cell_startRotation_def fun_upd_twist)
qed

lemma HexMap_stepRotation_in_flight:
  assumes "cells g (Hex_key h0) \<noteq> None" "cells g (Hex_key h1) \<noteq> None"
    "cells g (Hex_key h2) \<noteq> None"
    "Hex_key h0 \<noteq> Hex_key h1" "Hex_key h0 \<noteq> Hex_key h2" "Hex_key h1 \<noteq> Hex_key h2"
  shows "HexMap_stepRotation fresh dt (in_flight g h0 h1 h2 p) =
    Inr (if fge (advance dt p) (Finite 1) then rotated g h0 h1 h2
         else in_flight g h0 h1 h2 (advance dt p))"
proof -
  from assms obtain c0 c1 c2 where c: "cells g (Hex_key h0) = Some c0"
    "cells g (Hex_key h1) = Some c1" "cells g (Hex_key h2) = Some c2" by auto
  let ?m = "in_flight g h0 h1 h2 p"
  let ?c0 = "c0\<lparr>rotatingTo := Some h2, rotationProgress := p\<rparr>"
  let ?c1 = "c1\<lparr>rotatingTo := Some h0, rotationProgress := p\<rparr>"
  let ?c2 = "c2\<lparr>rotatingTo := Some h1, rotationProgress := p\<rparr>"
  have m: "rotation ?m = Some (h0, h1, h2)" "cells ?m (Hex_key h0) = Some ?c0"
    "cells ?m (Hex_key h1) = Some ?c1" "cells ?m (Hex_key h2) = Some ?c2"
    using assms(4-6) by (simp_all add: in_flight_def c)
  have t: "rotatingTo ?c0 = Some h2" "Hex_key h2 = Hex_key h2"
    "rotatingTo ?c1 = Some h0" "Hex_key h0 = Hex_key h0"
    "rotatingTo ?c2 = Some h1" "Hex_key h1 = Hex_key h1" by simp_all
  show ?thesis
    unfolding HexMap_stepRotation_distinct [OF m assms(4-6) t]
    using assms(4-6)
    by (auto simp add: Cell_stepRotation_advance Cell_rotationDone_def in_flight_def rotated_def
        c Cell_resetRotation_def fun_upd_twist intro!: HexMap.equality ext)
qed

lemma stepRotations_in_flight:
  assumes "cells g (Hex_key h0) \<noteq> None" "cells g (Hex_key h1) \<noteq> None"
    "cells g (Hex_key h2) \<noteq> None"
    "Hex_key h0 \<noteq> Hex_key h1" "Hex_key h0 \<noteq> Hex_key h2" "Hex_key h1 \<noteq> Hex_key h2"
  shows "stepRotations fresh dts (in_flight g h0 h1 h2 p) =
    Inr (case run_progress dts p of None \<Rightarrow> rotated g h0 h1 h2
         | Some p' \<Rightarrow> in_flight g h0 h1 h2 p')"
proof (induction dts arbitrary: p)
  case Nil
  show ?case by simp
next
  case (Cons dt dts)
  have idle: "rotation (rotated g h0 h1 h2) = None" by (simp add: rotated_def)
  show ?case
    by (simp add: HexMap_stepRotation_in_flight [OF assms] bind_err_def Cons.IH
        stepRotations_idle [OF idle] Let_def)
qed

lemma run_progress_commits:
  assumes "\<forall>dt \<in> set dts. fge dt (Finite 0)" "\<exists>dt \<in> set dts. fge dt (Finite (1 / 4))" "0 \<le> x"
  shows "run_progress dts (Finite x) = None"
  using assms
proof (induction dts arbitrary: x)
  case Nil
  then show ?case by simp
next
  case (Cons dt dts)
  show ?case
  proof (cases "fge (advance dt (Finite x)) (Finite 1)")
    case True
    then show ?thesis by (simp add: Let_def)
  next
    case False
    from Cons.prems have dt: "fge dt (Finite 0)" by simp
    from advance_nonneg [OF dt Cons.prems(3)] obtain y
      where y: "advance dt (Finite x) = Finite y" "0 \<le> y" by blast
    from False advance_done [OF _ Cons.prems(3)] have "\<not> fge dt (Finite (1 / 4))"
      by (auto simp: fge_def)
    with Cons.prems have "\<exists>dt \<in> set dts. fge dt (Finite (1 / 4))" by auto
    with Cons.IH [of y] Cons.prems y False show ?thesis by (simp add: Let_def)
  qed
qed

section \<open>Frame and invariants of the rotation\<close>

lemma same_outside_refl: "same_outside S m m"
  by (simp add: same_outside_def)

lemma same_outside_trans:
  "same_outside S m m' \<Longrightarrow> same_outside S m' m'' \<Longrightarrow> same_outside S m m''"
  by (simp add: same_outside_def)

lemma modify_simps:
  "cells (modify k f m) k' = (if k' = k then map_option f (cells m k) else cells m k')"
  "rotation (modify k f m) = rotation m"
  by (simp_all add: modify_def)

lemma modify_same_outside: "k \<in> S \<Longrightarrow> same_outside S m (modify k f m)"
  by (auto simp: same_outside_def modify_simps dom_def)

lemma modify_same_outside_step:
  "k \<in> S \<Longrightarrow> same_outside S m m' \<Longrightarrow> same_outside S m (modify k f m')"
  by (blast intro: same_outside_trans modify_same_outside)

lemma modify_targets_in:
  assumes "targets_in S m" "\<And>c. rotatingTo (f c) = rotatingTo c"
  shows "targets_in S (modify k f m)"
  using assms unfolding targets_in_def modify_simps
  by (auto simp: map_option_case split: option.splits) 

lemma swap_to_target_targets_in:
  assumes "targets_in S m" "k \<in> S"
  shows "\<exists>m'. swap_to_target fresh k m = Inr m' \<and> targets_in S m' \<and>
     rotation m' = rotation m \<and> same_outside S m m'"
proof -
  from assms obtain c t where c: "cells m k = Some c" "rotatingTo c = Some t" "Hex_key t \<in> S"
    unfolding targets_in_def by blast
  from assms(1) c(3) obtain c' where c': "cells m (Hex_key t) = Some c'"
    unfolding targets_in_def by blast
  let ?m' = "m\<lparr>cells := (cells m)(k \<mapsto> c', Hex_key t \<mapsto> c)\<rparr>"
  have eq: "swap_to_target fresh k m = Inr ?m'"
    by (simp add: swap_to_target_def c c' HexMap_index_def swap_cells_def)
  have "targets_in S ?m'"
    using assms(1) c c' unfolding targets_in_def by (auto split: if_splits)
  moreover have "same_outside S m ?m'"
    using c c' assms(2) by (auto simp: same_outside_def dom_def)
  ultimately show ?thesis using eq by simp
qed

lemma Cell_stepRotation_rotatingTo: "rotatingTo (Cell_stepRotation dt c) = rotatingTo c"
  by (simp add: Cell_stepRotation_def Let_def)

lemma HexMap_stepRotation_wf:
  assumes "rotation m = Some d" "targets_in (descriptor_keys d) m"
  shows "\<exists>m'. HexMap_stepRotation fresh dt m = Inr m' \<and> same_outside (descriptor_keys d) m m' \<and>
     (rotation m' = Some d \<and> targets_in (descriptor_keys d) m' \<or>
      rotation m' = None \<and> (\<forall>k \<in> descriptor_keys d. \<exists>c. cells m' k = Some c \<and> rotatingTo c = None))"
proof -
  obtain h0 h1 h2 where d: "d = (h0, h1, h2)" by (cases d)
  let ?S = "descriptor_keys d"
  let ?k0 = "Hex_key h0" and ?k1 = "Hex_key h1" and ?k2 = "Hex_key h2"
  have S: "?k0 \<in> ?S" "?k1 \<in> ?S" "?k2 \<in> ?S" "?S = {?k0, ?k1, ?k2}"
    by (simp_all add: d descriptor_keys_def)
  from assms(2) S have present: "cells m ?k0 \<noteq> None" "cells m ?k1 \<noteq> None" "cells m ?k2 \<noteq> None"
    unfolding targets_in_def by blast+
  define m3 where "m3 = modify ?k2 (Cell_stepRotation dt)
    (modify ?k1 (Cell_stepRotation dt) (modify ?k0 (Cell_stepRotation dt) m))"
  have m3: "targets_in ?S m3" "rotation m3 = Some d"
    unfolding m3_def
    using assms
    by (auto intro!: modify_targets_in Cell_stepRotation_rotatingTo simp: modify_simps)
  have m3': "same_outside ?S m m3"
    unfolding m3_def using S(1-3)
    by (intro modify_same_outside_step same_outside_refl)
  have step: "HexMap_stepRotation fresh dt m =
    (if slot_done ?k0 m3 \<and> slot_done ?k1 m3 \<and> slot_done ?k2 m3 then
       bind_err (swap_to_target fresh ?k0 m3) (\<lambda>m.
       bind_err (swap_to_target fresh ?k1 m) (\<lambda>m.
       bind_err (swap_to_target fresh ?k2 m) (\<lambda>m.
         Inr ((modify ?k2 Cell_resetRotation (modify ?k1 Cell_resetRotation
           (modify ?k0 Cell_resetRotation m)))\<lparr>rotation := None\<rparr>))))
     else Inr m3)"
    using present
    by (auto simp add: HexMap_stepRotation_def assms(1) d HexMap_at_def bind_err_def Let_def m3_def)
  show ?thesis
  proof (cases "slot_done ?k0 m3 \<and> slot_done ?k1 m3 \<and> slot_done ?k2 m3")
    case False
    with step m3 m3' show ?thesis by auto
  next
    case True
    from swap_to_target_targets_in [OF m3(1) S(1)] obtain m4
      where m4: "swap_to_target fresh ?k0 m3 = Inr m4" "targets_in ?S m4" "same_outside ?S m3 m4"
      by blast
    from swap_to_target_targets_in [OF m4(2) S(2)] obtain m5
      where m5: "swap_to_target fresh ?k1 m4 = Inr m5" "targets_in ?S m5" "same_outside ?S m4 m5"
      by blast
    from swap_to_target_targets_in [OF m5(2) S(3)] obtain m6
      where m6: "swap_to_target fresh ?k2 m5 = Inr m6" "targets_in ?S m6" "same_outside ?S m5 m6"
      by blast
    let ?m7 = "modify ?k2 Cell_resetRotation (modify ?k1 Cell_resetRotation
           (modify ?k0 Cell_resetRotation m6))"
    have res: "HexMap_stepRotation fresh dt m = Inr (?m7\<lparr>rotation := None\<rparr>)"
      using True by (simp add: step m4 m5 m6 bind_err_def)
    have "same_outside ?S m6 ?m7"
      using S(1-3) by (intro modify_same_outside_step same_outside_refl)
    with m3' m4(3) m5(3) m6(3) have "same_outside ?S m ?m7"
      by (blast intro: same_outside_trans)
    then have so: "same_outside ?S m (?m7\<lparr>rotation := None\<rparr>)"
      by (simp add: same_outside_def)
    have "\<forall>k \<in> ?S. \<exists>c. cells ?m7 k = Some c \<and> rotatingTo c = None"
      using m6(2) unfolding targets_in_def S(4)
      by (auto simp: modify_simps Cell_resetRotation_def)
    with res so show ?thesis by auto
  qed
qed

lemma HexMap_insert_simps:
  "rotation (HexMap_insert hex cell m) = rotation m"
  "cells m k = Some c \<Longrightarrow> cells (HexMap_insert hex cell m) k = Some c"
  "cells (HexMap_insert hex cell m) k = Some c \<Longrightarrow> cells m k = Some c \<or> c = cell"
  by (cases "k = Hex_key hex"; simp add: HexMap_insert_def split: if_splits)+

lemma HexMap_insert_all_idle:
  assumes "all_idle m" "rotatingTo cell = None"
  shows "all_idle (HexMap_insert hex cell m)"
  unfolding all_idle_def
proof (intro conjI allI impI)
  show "rotation (HexMap_insert hex cell m) = None"
    using assms(1) by (simp add: HexMap_insert_simps(1) all_idle_def)
next
  fix k c assume "cells (HexMap_insert hex cell m) k = Some c"
  from HexMap_insert_simps(3) [OF this] assms show "rotatingTo c = None"
    unfolding all_idle_def by blast
qed

lemma generateHexMap_r_idle:
  "all_idle m \<Longrightarrow> all_idle (generateHexMap_r fresh qv rv r2 m)"
proof (induction fresh qv rv r2 m rule: generateHexMap_r.induct)
  case (1 fresh qv rv r2 hexMap)
  show ?case
  proof (cases "rv \<le> r2")
    case True
    let ?hex = "\<lparr>q = qv, r = rv, s = - qv - rv\<rparr>"
    have "all_idle (HexMap_insert ?hex (Cell_ctor (fst (fresh ?hex)) (snd (fresh ?hex))) hexMap)"
      using "1.prems" by (rule HexMap_insert_all_idle) (simp add: Cell_ctor_def)
    from "1.IH" [OF True refl this] True show ?thesis
      by (subst generateHexMap_r.simps) (simp add: Let_def)
  next
    case False
    with "1.prems" show ?thesis by (subst generateHexMap_r.simps) simp
  qed
qed

lemma generateHexMap_q_idle:
  "all_idle m \<Longrightarrow> all_idle (generateHexMap_q fresh n qv m)"
proof (induction fresh n qv m rule: generateHexMap_q.induct)
  case (1 fresh n qv hexMap)
  show ?case
  proof (cases "qv \<le> n")
    case True
    from "1.IH" [OF True refl refl generateHexMap_r_idle [OF "1.prems"]] True show ?thesis
      by (subst generateHexMap_q.simps) (simp add: Let_def)
  next
    case False
    with "1.prems" show ?thesis by (subst generateHexMap_q.simps) simp
  qed
qed

lemma generateHexMap_idle: "all_idle (generateHexMap fresh n)"
  unfolding generateHexMap_def
  by (rule generateHexMap_q_idle) (simp add: all_idle_def HexMap_ctor_def)

lemma all_idle_inv: "all_idle m \<Longrightarrow> rotation_wf m \<and> no_stray m"
  by (auto simp: all_idle_def rotation_wf_def no_stray_def)

lemma same_outsideD: "same_outside S m m' \<Longrightarrow> k \<notin> S \<Longrightarrow> cells m' k = cells m k"
  unfolding same_outside_def by blast

lemma HexMap_insert_targets_in:
  assumes "targets_in S m"
  shows "targets_in S (HexMap_insert hex cell m)"
  unfolding targets_in_def
proof
  fix k assume "k \<in> S"
  with assms obtain c t where "cells m k = Some c" "rotatingTo c = Some t" "Hex_key t \<in> S"
    unfolding targets_in_def by blast
  then show "\<exists>c t. cells (HexMap_insert hex cell m) k = Some c \<and> rotatingTo c = Some t \<and>
      Hex_key t \<in> S"
    using HexMap_insert_simps(2) [of m k c hex cell] by blast
qed

lemma HexMap_insert_rotation_wf:
  assumes "rotation_wf m"
  shows "rotation_wf (HexMap_insert hex cell m)"
  using assms unfolding rotation_wf_def HexMap_insert_simps(1)
  by (cases "rotation m") (simp_all add: HexMap_insert_targets_in)

lemma HexMap_insert_no_stray:
  assumes "no_stray m" "rotatingTo cell = None"
  shows "no_stray (HexMap_insert hex cell m)"
  unfolding no_stray_def HexMap_insert_simps(1)
proof (intro allI impI)
  fix k c assume c: "cells (HexMap_insert hex cell m) k = Some c" "rotatingTo c \<noteq> None"
  from HexMap_insert_simps(3) [OF c(1)] c(2) assms(2) have "cells m k = Some c" by auto
  with assms(1) c(2) show "\<exists>d. rotation m = Some d \<and> k \<in> descriptor_keys d"
    unfolding no_stray_def by blast
qed

lemma HexMap_startRotation_wf:
  assumes "cells m (Hex_key h0) \<noteq> None" "cells m (Hex_key h1) \<noteq> None"
    "cells m (Hex_key h2) \<noteq> None"
  shows "\<exists>m'. HexMap_startRotation (h0, h1, h2) m = Inr m' \<and> rotation m' = Some (h0, h1, h2) \<and>
    targets_in (descriptor_keys (h0, h1, h2)) m' \<and>
    same_outside (descriptor_keys (h0, h1, h2)) m m'"
proof -
  let ?m' = "modify (Hex_key h0) (Cell_startRotation h2) (modify (Hex_key h2) (Cell_startRotation h1)
    (modify (Hex_key h1) (Cell_startRotation h0) (m\<lparr>rotation := Some (h0, h1, h2)\<rparr>)))"
  have eq: "HexMap_startRotation (h0, h1, h2) m = Inr ?m'"
    using assms by (auto simp: HexMap_startRotation_def HexMap_at_def bind_err_def Let_def)
  have "targets_in (descriptor_keys (h0, h1, h2)) ?m'"
    using assms
    by (auto simp: targets_in_def descriptor_keys_def modify_simps Cell_startRotation_def)
  moreover have "same_outside (descriptor_keys (h0, h1, h2)) m ?m'"
    using assms
    by (auto simp: same_outside_def descriptor_keys_def modify_simps dom_def)
  moreover have "rotation ?m' = Some (h0, h1, h2)"
    by (simp add: modify_simps)
  ultimately show ?thesis using eq by simp
qed

lemma reachable_rotation_wf: "reachable ok m \<Longrightarrow> rotation_wf m"
proof (induction rule: reachable.induct)
  case (generated fresh n)
  show ?case using all_idle_inv [OF generateHexMap_idle] by blast
next
  case (inserted m cell hex)
  then show ?case by (simp add: HexMap_insert_rotation_wf)
next
  case (started m h0 h1 h2 m')
  from HexMap_startRotation_wf [OF started(3-5)] started(6) show ?case
    by (auto simp: rotation_wf_def)
next
  case (stepped m fresh dt m')
  show ?case
  proof (cases "rotation m")
    case None
    with stepped show ?thesis by (simp add: HexMap_stepRotation_idle)
  next
    case (Some d)
    with stepped(3) have "targets_in (descriptor_keys d) m" by (simp add: rotation_wf_def)
    from HexMap_stepRotation_wf [OF Some this, of fresh dt] stepped(2) show ?thesis
      by (auto simp: rotation_wf_def)
  qed
qed

lemma reachable_no_stray: "reachable Cell_idle m \<Longrightarrow> no_stray m"
proof (induction rule: reachable.induct)
  case (generated fresh n)
  show ?case using all_idle_inv [OF generateHexMap_idle] by blast
next
  case (inserted m cell hex)
  then show ?case by (simp add: HexMap_insert_no_stray Cell_idle_def)
next
  case (started m h0 h1 h2 m')
  from HexMap_startRotation_wf [OF started(3-5)] started(6)
  have m': "rotation m' = Some (h0, h1, h2)" "same_outside (descriptor_keys (h0, h1, h2)) m m'"
    by auto
  show ?case
    unfolding no_stray_def
  proof (intro allI impI)
    fix k c assume c: "cells m' k = Some c" "rotatingTo c \<noteq> None"
    have "k \<in> descriptor_keys (h0, h1, h2)"
    proof (rule ccontr)
      assume "k \<notin> descriptor_keys (h0, h1, h2)"
      with m'(2) c(1) have "cells m k = Some c" by (simp add: same_outsideD)
      with started.IH c(2) started(2) show False unfolding no_stray_def by (metis option.distinct(1))
    qed
    with m'(1) show "\<exists>d. rotation m' = Some d \<and> k \<in> descriptor_keys d" by simp
  qed
next
  case (stepped m fresh dt m')
  show ?case
  proof (cases "rotation m")
    case None
    with stepped show ?thesis by (simp add: HexMap_stepRotation_idle)
  next
    case (Some d)
    from reachable_rotation_wf [OF stepped(1)] Some have "targets_in (descriptor_keys d) m"
      by (simp add: rotation_wf_def)
    from HexMap_stepRotation_wf [OF Some this, of fresh dt] stepped(2)
    have m': "same_outside (descriptor_keys d) m m'"
      "rotation m' = Some d \<or>
       rotation m' = None \<and> (\<forall>k \<in> descriptor_keys d. \<exists>c. cells m' k = Some c \<and> rotatingTo c = None)"
      by auto
    show ?thesis
      unfolding no_stray_def
    proof (intro allI impI)
      fix k c assume c: "cells m' k = Some c" "rotatingTo c \<noteq> None"
      have k: "k \<in> descriptor_keys d"
      proof (rule ccontr)
        assume "k \<notin> descriptor_keys d"
        with m'(1) c(1) have "cells m k = Some c" by (simp add: same_outsideD)
        with stepped.IH c(2) Some \<open>k \<notin> descriptor_keys d\<close> show False
          unfolding no_stray_def by (metis option.inject)
      qed
      with m'(2) c have "rotation m' = Some d" by force
      with k show "\<exists>d. rotation m' = Some d \<and> k \<in> descriptor_keys d" by simp
    qed
  qed
qed

section \<open>The cells of a generated grid\<close>

lemma dom_HexMap_insert:
  "dom (cells (HexMap_insert hex cell m)) = insert (Hex_key hex) (dom (cells m))"
  by (auto simp: HexMap_insert_def)

lemma dom_generateHexMap_r:
  "dom (cells (generateHexMap_r fresh qv rv r2 m)) = dom (cells m) \<union> {qv} \<times> {rv..r2}"
proof (induction fresh qv rv r2 m rule: generateHexMap_r.induct)
  case (1 fresh qv rv r2 hexMap)
  show ?case
  proof (cases "rv \<le> r2")
    case True
    have "{rv..r2} = insert rv {rv + 1..r2}"
      using True by auto
    with "1.IH" [OF True refl] True show ?thesis
      by (subst generateHexMap_r.simps) (simp add: Let_def dom_HexMap_insert Hex_key_def)
  next
    case False
    then show ?thesis by (subst generateHexMap_r.simps) simp
  qed
qed

lemma dom_generateHexMap_q:
  "dom (cells (generateHexMap_q fresh n qv m)) = dom (cells m) \<union> (SIGMA a:{qv..n}. hex_rows n a)"
proof (induction fresh n qv m rule: generateHexMap_q.induct)
  case (1 fresh n qv hexMap)
  show ?case
  proof (cases "qv \<le> n")
    case True
    have "{qv..n} = insert qv {qv + 1..n}"
      using True by auto
    then have sig: "(SIGMA a:{qv..n}. hex_rows n a) =
        {qv} \<times> hex_rows n qv \<union> (SIGMA a:{qv + 1..n}. hex_rows n a)"
      by auto
    have step: "generateHexMap_q fresh n qv hexMap =
        generateHexMap_q fresh n (qv + 1)
          (generateHexMap_r fresh qv (max (- n) (- qv - n)) (min n (- qv + n)) hexMap)"
      using True by (subst generateHexMap_q.simps) (simp add: Let_def)
    show ?thesis
      unfolding step "1.IH" [OF True refl refl] dom_generateHexMap_r sig
      by (simp add: hex_rows_def Un_assoc)
  next
    case False
    then show ?thesis by (subst generateHexMap_q.simps) simp
  qed
qed

lemma dom_generateHexMap:
  "dom (cells (generateHexMap fresh n)) = (SIGMA a:{- n..n}. hex_rows n a)"
  by (simp add: generateHexMap_def dom_generateHexMap_q HexMap_ctor_def)

lemma card_hex_rows:
  assumes "0 \<le> n" "- n \<le> a" "a \<le> n"
  shows "int (card (hex_rows n a)) = 2 * n + 1 - \<bar>a\<bar>"
  using assms by (auto simp: hex_rows_def max_def min_def)

lemma sum_abs_sym:
  fixes n :: int
  assumes "0 \<le> n"
  shows "(\<Sum>a \<in> {- n..n}. \<bar>a\<bar>) = n * (n + 1)"
  using assms
proof (induction n rule: int_ge_induct)
  case base
  show ?case by simp
next
  case (step i)
  have set: "{- (i + 1)..i + 1} = insert (- (i + 1)) (insert (i + 1) {- i..i})"
    using step.hyps by auto
  have "(\<Sum>a \<in> {- (i + 1)..i + 1}. \<bar>a\<bar>) = \<bar>- (i + 1)\<bar> + (\<bar>i + 1\<bar> + (\<Sum>a \<in> {- i..i}. \<bar>a\<bar>))"
    unfolding set using step.hyps by (subst sum.insert; simp)+
  also have "\<dots> = (i + 1) * (i + 1 + 1)"
    using step by (simp add: algebra_simps)
  finally show ?case .
qed

lemma card_generateHexMap:
  assumes "0 \<le> n"
  shows "int (card (dom (cells (generateHexMap fresh n)))) = 3 * n\<^sup>2 + 3 * n + 1"
proof -
  have "int (card (SIGMA a:{- n..n}. hex_rows n a)) = (\<Sum>a \<in> {- n..n}. int (card (hex_rows n a)))"
    by (subst card_SigmaI) (simp_all add: hex_rows_def)
  also have "\<dots> = (\<Sum>a \<in> {- n..n}. 2 * n + 1 - \<bar>a\<bar>)"
    using assms by (intro sum.cong refl card_hex_rows) simp_all
  also have "\<dots> = (2 * n + 1) * (2 * n + 1) - (\<Sum>a \<in> {- n..n}. \<bar>a\<bar>)"
    using assms by (simp add: sum_subtractf algebra_simps)
  also have "\<dots> = 3 * n\<^sup>2 + 3 * n + 1"
    using assms by (simp add: sum_abs_sym power2_eq_square algebra_simps)
  finally show ?thesis by (simp add: dom_generateHexMap)
qed

section \<open>Runs of steps\<close>

lemma rotate_run_in_flight:
  assumes "cells g (Hex_key h0) \<noteq> None" "cells g (Hex_key h1) \<noteq> None"
    "cells g (Hex_key h2) \<noteq> None"
    "Hex_key h0 \<noteq> Hex_key h1" "Hex_key h0 \<noteq> Hex_key h2" "Hex_key h1 \<noteq> Hex_key h2"
  shows "rotate_run fresh (h0, h1, h2) dts g =
    Inr (case run_progress dts (Finite 0) of None \<Rightarrow> rotated g h0 h1 h2
         | Some p' \<Rightarrow> in_flight g h0 h1 h2 p')"
  by (simp add: rotate_run_def HexMap_startRotation_in_flight [OF assms] bind_err_def
      stepRotations_in_flight [OF assms])

lemma run_progress_funpow:
  "(run_progress (replicate n dt) p = None) =
   (\<exists>j \<in> {1..n}. fge ((advance dt ^^ j) p) (Finite 1))"
proof (induction n arbitrary: p)
  case 0
  show ?case by simp
next
  case (Suc n)
  have "(\<exists>j \<in> {1..Suc n}. fge ((advance dt ^^ j) p) (Finite 1)) =
    (fge (advance dt p) (Finite 1) \<or> (\<exists>j \<in> {1..n}. fge ((advance dt ^^ j) (advance dt p)) (Finite 1)))"
    (is "?L = (?A \<or> ?B)")
  proof
    assume ?L
    then obtain j where j: "1 \<le> j" "j \<le> Suc n" "fge ((advance dt ^^ j) p) (Finite 1)" by auto
    show "?A \<or> ?B"
    proof (cases "j = 1")
      case True
      with j show ?thesis by simp
    next
      case False
      with j obtain i where i: "j = Suc i" "1 \<le> i" "i \<le> n" by (cases j) auto
      with j(3) have "fge ((advance dt ^^ i) (advance dt p)) (Finite 1)"
        by (simp add: funpow_swap1)
      with i show ?thesis by auto
    qed
  next
    assume "?A \<or> ?B"
    then show ?L
    proof
      assume ?A
      then have "fge ((advance dt ^^ 1) p) (Finite 1)" by simp
      then show ?L by (intro bexI [of _ 1]) auto
    next
      assume ?B
      then obtain i where i: "1 \<le> i" "i \<le> n" "fge ((advance dt ^^ i) (advance dt p)) (Finite 1)"
        by auto
      then have "fge ((advance dt ^^ Suc i) p) (Finite 1)" by (simp add: funpow_swap1)
      with i show ?L by (intro bexI [of _ "Suc i"]) auto
    qed
  qed
  with Suc.IH [of "advance dt p"] show ?case by (simp add: Let_def)
qed


lemma round32_code [code]:
  "round32 x = (if x = 0 then Finite 0 else
     (let e = max (ilog2 \<bar>x\<bar>) (- 126); u = 2 powi (e - 23);
          y = of_int (round_even (\<bar>x\<bar> / u)) * u
      in if 2 ^ 128 \<le> y then (if 0 < x then PInf else NInf)
         else (case quotient_of (sgn x * y) of (a, b) \<Rightarrow> Finite (of_int a / of_int b))))"
proof -
  have "(case quotient_of z of (a, b) \<Rightarrow> Finite (of_int a / of_int b)) = Finite z" for z
    by (cases "quotient_of z") (auto dest: quotient_of_div)
  then show ?thesis by (simp add: round32_def Let_def)
qed

lemma round_even_of_int: "round_even (of_int j) = j"
  by (simp add: round_even_def)

lemma round32_exact:
  fixes k :: int and s :: nat
  assumes "\<bar>k\<bar> < 2 ^ 24" "s \<le> 149"
  shows "round32 (of_int k / 2 ^ s) = Finite (of_int k / 2 ^ s)"
proof (cases "k = 0")
  case True
  then show ?thesis by (simp add: round32_def)
next
  case False
  define x :: rat where "x = of_int k / 2 ^ s"
  define ax :: rat where "ax = of_int \<bar>k\<bar> / 2 ^ s"
  have ax: "\<bar>x\<bar> = ax" by (simp add: x_def ax_def)
  have axpos: "0 < ax" using False by (simp add: ax_def)
  have xne: "x \<noteq> 0" using False by (simp add: x_def)
  have "(of_int \<bar>k\<bar> :: rat) < of_int (2 ^ 24)"
    using assms(1) by (simp only: of_int_less_iff)
  then have k24: "(of_int \<bar>k\<bar> :: rat) < 2 ^ 24" by simp
  have axlt: "ax < 2 powi (24 - int s)"
  proof -
    have "ax < 2 ^ 24 / 2 ^ s" using k24 by (simp add: ax_def divide_strict_right_mono)
    also have "\<dots> = 2 powi (24 - int s)" by (simp add: power_int_diff)
    finally show ?thesis .
  qed
  define e0 where "e0 = ilog2 ax"
  have "e0 < 24 - int s"
  proof (rule ccontr)
    assume "\<not> e0 < 24 - int s"
    then have "(2::rat) powi (24 - int s) \<le> 2 powi e0"
      by (intro power_int_increasing) simp_all
    with ilog2_bounds(1) [OF axpos] axlt show False by (simp add: e0_def)
  qed
  define e where "e = max e0 (- 126)"
  have ele: "e \<le> 23 - int s" using \<open>e0 < 24 - int s\<close> assms(2) by (simp add: e_def)
  define n where "n = nat (23 - int s - e)"
  define u :: rat where "u = 2 powi (e - 23)"
  have upos: "0 < u" by (simp add: u_def)
  have "(2::rat) powi (int n) * u = 2 powi (- int s)"
    unfolding u_def n_def using ele by (subst power_int_add [symmetric]) simp_all
  then have nu: "(2::rat) ^ n * u = 1 / 2 ^ s"
    by (simp add: power_int_minus_divide)
  have "ax / u = of_int \<bar>k\<bar> * (1 / 2 ^ s) / u" by (simp add: ax_def)
  also have "\<dots> = of_int \<bar>k\<bar> * 2 ^ n" unfolding nu [symmetric] using upos by simp
  finally have q: "ax / u = of_int (\<bar>k\<bar> * 2 ^ n)" by simp
  have y: "of_int (round_even (ax / u)) * u = ax"
    unfolding q round_even_of_int using nu by (simp add: ax_def mult.assoc)
  have small: "\<not> 2 ^ 128 \<le> ax"
  proof -
    have "(1::rat) \<le> 2 ^ s" by simp
    then have "of_int \<bar>k\<bar> * (1::rat) \<le> of_int \<bar>k\<bar> * 2 ^ s"
      by (intro mult_left_mono) simp_all
    then have "ax \<le> of_int \<bar>k\<bar>" by (simp add: ax_def divide_le_eq)
    with k24 show ?thesis by simp
  qed
  have "round32 x = Finite (sgn x * ax)"
    using xne small by (simp add: round32_def Let_def ax e0_def [symmetric] e_def [symmetric]
      u_def [symmetric] y)
  also have "sgn x * ax = x" unfolding ax [symmetric] by (simp add: sgn_mult_abs)
  finally show ?thesis by (simp add: x_def)
qed


lemma advance_pow2:
  assumes "m \<le> 23" "j < 2 ^ m"
  shows "advance (Finite (1 / 2 ^ (m + 2))) (Finite (of_nat j / 2 ^ m)) = Finite (of_nat (Suc j) / 2 ^ m)"
proof -
  have "round32 (1 / 2 ^ (m + 2) * 4) = Finite (1 / 2 ^ m)"
    using assms(1) round32_exact [of 1 m] by simp
  then have inc: "fmul (Finite (1 / 2 ^ (m + 2))) (Finite 4) = Finite (1 / 2 ^ m)"
    by (simp only: fmul.simps)
  have "int (Suc j) \<le> 2 ^ m" using assms(2)
    by (metis Suc_leI of_nat_le_iff of_nat_numeral of_nat_power)
  also have "(2::int) ^ m \<le> 2 ^ 23" using assms(1) by (intro power_increasing) simp_all
  finally have "\<bar>int (Suc j)\<bar> < 2 ^ 24" by simp
  from round32_exact [OF this, of m] assms(1)
  have sum: "round32 (of_nat j / 2 ^ m + 1 / 2 ^ m) = Finite (of_nat (Suc j) / 2 ^ m)"
    by (simp add: add_divide_distrib ac_simps)
  have "(of_nat (Suc j) :: rat) \<le> 2 ^ m"
    using assms(2) by (metis Suc_leI of_nat_le_iff of_nat_numeral of_nat_power)
  then have le: "\<not> 1 < (of_nat (Suc j) :: rat) / 2 ^ m"
    by (simp add: divide_le_eq not_less)
  show ?thesis
    unfolding advance_def inc fadd.simps sum Let_def fgt_def flt.simps
    using le by simp
qed

lemma funpow_advance_pow2:
  assumes "m \<le> 23" "j \<le> 2 ^ m"
  shows "(advance (Finite (1 / 2 ^ (m + 2))) ^^ j) (Finite 0) = Finite (of_nat j / 2 ^ m)"
  using assms(2)
proof (induction j)
  case 0
  show ?case by simp
next
  case (Suc j)
  then have "j < 2 ^ m" by simp
  from Suc have "(advance (Finite (1 / 2 ^ (m + 2))) ^^ j) (Finite 0) = Finite (of_nat j / 2 ^ m)"
    by simp
  then show ?case
    unfolding funpow.simps o_apply by (simp only: advance_pow2 [OF assms(1) \<open>j < 2 ^ m\<close>])
qed

lemma run_progress_pow2:
  assumes "m \<le> 23"
  shows "(run_progress (replicate n (Finite (1 / 2 ^ (m + 2)))) (Finite 0) = None) = (2 ^ m \<le> n)"
proof -
  let ?dt = "Finite (1 / 2 ^ (m + 2))"
  have reach: "fge ((advance ?dt ^^ j) (Finite 0)) (Finite 1) = (j = 2 ^ m)" if "j \<le> 2 ^ m" for j
  proof -
    have "((1::rat) \<le> of_nat j / 2 ^ m) = ((2::rat) ^ m \<le> of_nat j)"
      by (simp add: le_divide_eq)
    also have "\<dots> = ((2::nat) ^ m \<le> j)"
      by (metis of_nat_le_iff of_nat_numeral of_nat_power)
    finally have "((1::rat) \<le> of_nat j / 2 ^ m) = (j = 2 ^ m)"
      using that by auto
    then show ?thesis
      unfolding funpow_advance_pow2 [OF assms that] fge_def fle.simps .
  qed
  show ?thesis
    unfolding run_progress_funpow
  proof
    assume "\<exists>j \<in> {1..n}. fge ((advance ?dt ^^ j) (Finite 0)) (Finite 1)"
    then obtain j where j: "1 \<le> j" "j \<le> n" "fge ((advance ?dt ^^ j) (Finite 0)) (Finite 1)"
      by auto
    show "2 ^ m \<le> n"
    proof (rule ccontr)
      assume "\<not> 2 ^ m \<le> n"
      with j(2) have "j \<le> 2 ^ m" "j \<noteq> 2 ^ m" by auto
      with reach [of j] j(3) show False by simp
    qed
  next
    assume "2 ^ m \<le> n"
    moreover have "fge ((advance ?dt ^^ (2 ^ m)) (Finite 0)) (Finite 1)"
      using reach [of "2 ^ m"] by simp
    ultimately show "\<exists>j \<in> {1..n}. fge ((advance ?dt ^^ j) (Finite 0)) (Finite 1)"
      by (intro bexI [of _ "2 ^ m"]) auto
  qed
qed

lemma absorbed_run:
  "run_progress (replicate n (Finite (1 / 2 ^ 28))) (Finite (3 / 4)) = Some (Finite (3 / 4))"
proof (induction n)
  case 0
  show ?case by simp
next
  case (Suc n)
  have "advance (Finite (1 / 2 ^ 28)) (Finite (3 / 4)) = Finite (3 / 4)" by code_simp
  with Suc show ?case by (simp add: fge_def Let_def)
qed

lemma advance_grid:
  assumes "j \<le> 2 ^ 23"
  shows "advance (Finite (of_nat k / 2 ^ 25)) (Finite (of_nat j / 2 ^ 23)) =
    Finite (of_nat (min (2 ^ 23) (j + k)) / 2 ^ 23)"
proof (cases "k < 2 ^ 23")
  case False
  then have "(2::nat) ^ 23 \<le> k" by simp
  then have "(of_nat (2 ^ 23) :: rat) \<le> of_nat k" by (simp only: of_nat_le_iff)
  then have "fge (Finite (of_nat k / 2 ^ 25)) (Finite (1 / 4))"
    by (simp add: fge_def field_simps)
  from advance_done [OF this, of "of_nat j / 2 ^ 23"]
  have "advance (Finite (of_nat k / 2 ^ 25)) (Finite (of_nat j / 2 ^ 23)) = Finite 1" by simp
  moreover have "min (2 ^ 23) (j + k) = (2::nat) ^ 23" using False by simp
  ultimately show ?thesis by simp
next
  case True
  then have "\<bar>int k\<bar> < 2 ^ 24" by simp
  from round32_exact [OF this, of 23]
  have "round32 (of_nat k / 2 ^ 25 * 4) = Finite (of_nat k / 2 ^ 23)" by simp
  then have inc: "fmul (Finite (of_nat k / 2 ^ 25)) (Finite 4) = Finite (of_nat k / 2 ^ 23)"
    by (simp only: fmul.simps)
  from True assms have "\<bar>int (j + k)\<bar> < 2 ^ 24" by simp
  from round32_exact [OF this, of 23]
  have sum: "round32 (of_nat j / 2 ^ 23 + of_nat k / 2 ^ 23) = Finite (of_nat (j + k) / 2 ^ 23)"
    by (simp add: add_divide_distrib)
  have gt: "(1 < (of_nat (j + k) :: rat) / 2 ^ 23) = (2 ^ 23 < j + k)"
  proof -
    have "(1 < (of_nat (j + k) :: rat) / 2 ^ 23) = ((of_nat (2 ^ 23) :: rat) < of_nat (j + k))"
      by (simp add: less_divide_eq)
    also have "\<dots> = (2 ^ 23 < j + k)" by (simp only: of_nat_less_iff)
    finally show ?thesis .
  qed
  have "advance (Finite (of_nat k / 2 ^ 25)) (Finite (of_nat j / 2 ^ 23)) =
      (if 2 ^ 23 < j + k then Finite 1 else Finite (of_nat (j + k) / 2 ^ 23))"
    unfolding advance_def inc fadd.simps sum Let_def fgt_def flt.simps gt ..
  also have "\<dots> = Finite (of_nat (min (2 ^ 23) (j + k)) / 2 ^ 23)"
    by (simp add: min_def)
  finally show ?thesis .
qed

lemma run_progress_grid:
  assumes "j < 2 ^ 23"
  shows "(run_progress (map (\<lambda>k. Finite (of_nat k / 2 ^ 25)) ks) (Finite (of_nat j / 2 ^ 23)) = None) =
    (2 ^ 23 \<le> j + sum_list ks)"
  using assms
proof (induction ks arbitrary: j)
  case Nil
  then show ?case by simp
next
  case (Cons k ks)
  have adv: "advance (Finite (of_nat k / 2 ^ 25)) (Finite (of_nat j / 2 ^ 23)) =
      Finite (of_nat (min (2 ^ 23) (j + k)) / 2 ^ 23)"
    using Cons.prems by (intro advance_grid) simp
  show ?case
  proof (cases "2 ^ 23 \<le> j + k")
    case True
    then have "min (2 ^ 23) (j + k) = (2::nat) ^ 23" by simp
    then have d: "fge (Finite (of_nat (min (2 ^ 23) (j + k)) / 2 ^ 23)) (Finite 1)"
      by (simp add: fge_def)
    have "run_progress (map (\<lambda>k. Finite (of_nat k / 2 ^ 25)) (k # ks)) (Finite (of_nat j / 2 ^ 23)) = None"
      by (simp only: list.map run_progress.simps adv Let_def d if_True)
    moreover have "2 ^ 23 \<le> j + sum_list (k # ks)" using True by simp
    ultimately show ?thesis by blast
  next
    case False
    then have lt: "j + k < 2 ^ 23" by simp
    then have m: "min (2 ^ 23) (j + k) = j + k" by simp
    have "(of_nat (j + k) :: rat) < of_nat (2 ^ 23)" using lt by (simp only: of_nat_less_iff)
    then have "\<not> (1::rat) \<le> of_nat (j + k) / 2 ^ 23" by (simp add: le_divide_eq)
    then have nd: "\<not> fge (Finite (of_nat (j + k) / 2 ^ 23)) (Finite 1)"
      by (simp add: fge_def)
    show ?thesis
      using Cons.IH [OF lt] nd
      by (simp only: list.map run_progress.simps adv m Let_def if_False sum_list.Cons add.assoc)
  qed
qed

lemma sum_grid: "sum_list (map float_value (map (\<lambda>k. Finite (of_nat k / 2 ^ 25)) ks)) =
    of_nat (sum_list ks) / 2 ^ 25"
  by (induction ks) (simp_all add: add_divide_distrib)

lemma run_progress_cumulative:
  "(run_progress (map (\<lambda>k. Finite (of_nat k / 2 ^ 25)) ks) (Finite 0) = None) =
    (1 / 4 \<le> sum_list (map float_value (map (\<lambda>k. Finite (of_nat k / 2 ^ 25)) ks)))"
proof -
  have "(run_progress (map (\<lambda>k. Finite (of_nat k / 2 ^ 25)) ks) (Finite (of_nat 0 / 2 ^ 23)) = None) =
    (2 ^ 23 \<le> 0 + sum_list ks)"
    by (rule run_progress_grid) simp
  then have A: "(run_progress (map (\<lambda>k. Finite (of_nat k / 2 ^ 25)) ks) (Finite 0) = None) =
    (2 ^ 23 \<le> sum_list ks)"
    by simp
  have B: "((1::rat) / 4 \<le> of_nat (sum_list ks) / 2 ^ 25) = (2 ^ 23 \<le> sum_list ks)"
  proof -
    have "((1::rat) / 4 \<le> of_nat (sum_list ks) / 2 ^ 25) = ((of_nat (2 ^ 23) :: rat) \<le> of_nat (sum_list ks))"
      by (simp add: field_simps)
    also have "\<dots> = (2 ^ 23 \<le> sum_list ks)" by (simp only: of_nat_le_iff)
    finally show ?thesis .
  qed
  show ?thesis unfolding sum_grid B using A by simp
qed

lemma advance_64th:
  "advance (Finite (1 / 64)) (Finite 0) = Finite (1 / 16)"
  "advance (Finite (1 / 64)) (Finite (1 / 16)) = Finite (1 / 8)"
  "advance (Finite (1 / 64)) (Finite (1 / 8)) = Finite (3 / 16)"
  "advance (Finite (1 / 64)) (Finite (3 / 16)) = Finite (1 / 4)"
  "advance (Finite (1 / 64)) (Finite (1 / 4)) = Finite (5 / 16)"
  "advance (Finite (1 / 64)) (Finite (5 / 16)) = Finite (3 / 8)"
  "advance (Finite (1 / 64)) (Finite (3 / 8)) = Finite (7 / 16)"
  "advance (Finite (1 / 64)) (Finite (7 / 16)) = Finite (1 / 2)"
  "advance (Finite (1 / 64)) (Finite (1 / 2)) = Finite (9 / 16)"
  "advance (Finite (1 / 64)) (Finite (9 / 16)) = Finite (5 / 8)"
  "advance (Finite (1 / 64)) (Finite (5 / 8)) = Finite (11 / 16)"
  "advance (Finite (1 / 64)) (Finite (11 / 16)) = Finite (3 / 4)"
  "advance (Finite (1 / 64)) (Finite (3 / 4)) = Finite (13 / 16)"
  "advance (Finite (1 / 64)) (Finite (13 / 16)) = Finite (7 / 8)"
  "advance (Finite (1 / 64)) (Finite (7 / 8)) = Finite (15 / 16)"
  "advance (Finite (1 / 64)) (Finite (15 / 16)) = Finite 1"
  "advance (Finite (1 / 64)) (Finite 1) = Finite 1"
  by code_simp+


section \<open>The example grid\<close>

lemma example_keys:
  "Hex_key hexA = (0, 0)" "Hex_key hexB = (- 1, 1)" "Hex_key hexC = (0, 1)" "Hex_key hexD = (2, 0)"
  by (simp_all add: Hex_key_def hexA_def hexB_def hexC_def hexD_def)

lemma example_grid_simps:
  "rotation example_grid = None"
  "cells example_grid (0, 0) = Some \<lparr>rotatingTo = None, rotationProgress = NaN, color = 1\<rparr>"
  "cells example_grid (- 1, 1) = Some \<lparr>rotatingTo = None, rotationProgress = NaN, color = 2\<rparr>"
  "cells example_grid (0, 1) = Some \<lparr>rotatingTo = None, rotationProgress = NaN, color = 3\<rparr>"
  "cells example_grid (2, 0) = Some \<lparr>rotatingTo = None, rotationProgress = NaN, color = 4\<rparr>"
  by (simp_all add: example_grid_def HexMap_insert_def HexMap_ctor_def Cell_ctor_def example_keys)

lemma example_colors:
  "HexMap_color example_grid hexA = Some 1" "HexMap_color example_grid hexB = Some 2"
  "HexMap_color example_grid hexC = Some 3" "HexMap_color example_grid hexD = Some 4"
  by (simp_all add: HexMap_color_def example_keys example_grid_simps)

lemma example_run:
  "rotate_run example_fresh (hexA, hexB, hexC) dts example_grid =
    Inr (case run_progress dts (Finite 0) of None \<Rightarrow> rotated example_grid hexA hexB hexC
         | Some p' \<Rightarrow> in_flight example_grid hexA hexB hexC p')"
  by (rule rotate_run_in_flight) (simp_all add: example_keys example_grid_simps)


lemma aliased_pair:
  "result_rotating (HexMap_startRotation (hexA, hexA, hexB) example_grid)"
  "result_progress (HexMap_startRotation (hexA, hexA, hexB) example_grid) hexA = Some (Finite 0)"
  "result_rotating (rotate_run example_fresh (hexA, hexA, hexB) [Finite (1 / 64)] example_grid)"
  "result_progress (rotate_run example_fresh (hexA, hexA, hexB) [Finite (1 / 64)] example_grid) hexA =
     Some (Finite (1 / 8))"
  "result_progress (rotate_run example_fresh (hexA, hexA, hexB) [Finite (1 / 64)] example_grid) hexB =
     Some (Finite (1 / 16))"
  by (simp_all add: example_keys example_grid_simps rotate_run_def HexMap_startRotation_def
      HexMap_stepRotation_def HexMap_at_def slot_done_def Cell_rotationDone_def
      bind_err_def modify_def Cell_startRotation_def result_rotating_def result_progress_def
      HexMap_hasRotation_def Let_def Cell_stepRotation_advance advance_64th fge_def)

lemma aliased_triple:
  "result_rotating (rotate_run example_fresh (hexA, hexA, hexA) (replicate 5 (Finite (1 / 64))) example_grid)"
  "result_progress (rotate_run example_fresh (hexA, hexA, hexA) (replicate 5 (Finite (1 / 64))) example_grid) hexA =
     Some (Finite (15 / 16))"
  "result_idle (rotate_run example_fresh (hexA, hexA, hexA) (replicate 6 (Finite (1 / 64))) example_grid)"
  by (simp_all add: numeral_eq_Suc
      example_keys example_grid_simps rotate_run_def HexMap_startRotation_def
      HexMap_stepRotation_def HexMap_at_def slot_done_def Cell_rotationDone_def
      swap_to_target_def HexMap_index_def swap_cells_def Cell_resetRotation_def
      bind_err_def modify_def Cell_startRotation_def result_rotating_def result_progress_def
      result_idle_def HexMap_hasRotation_def Let_def Cell_stepRotation_advance advance_64th fge_def)


section \<open>The claims about the rotation\<close>

lemma rotated_simps:
  assumes "Hex_key h0 \<noteq> Hex_key h1" "Hex_key h0 \<noteq> Hex_key h2" "Hex_key h1 \<noteq> Hex_key h2"
  shows "rotation (rotated g h0 h1 h2) = None"
    "dom (cells (rotated g h0 h1 h2)) =
      (dom (cells g) - {Hex_key h0, Hex_key h1, Hex_key h2}) \<union>
      {k. k = Hex_key h0 \<and> cells g (Hex_key h1) \<noteq> None \<or>
          k = Hex_key h1 \<and> cells g (Hex_key h2) \<noteq> None \<or>
          k = Hex_key h2 \<and> cells g (Hex_key h0) \<noteq> None}"
    "HexMap_color (rotated g h0 h1 h2) h0 = HexMap_color g h1"
    "HexMap_color (rotated g h0 h1 h2) h1 = HexMap_color g h2"
    "HexMap_color (rotated g h0 h1 h2) h2 = HexMap_color g h0"
    "k \<notin> {Hex_key h0, Hex_key h1, Hex_key h2} \<Longrightarrow> cells (rotated g h0 h1 h2) k = cells g k"
  using assms
  by (auto simp: rotated_def HexMap_color_def option.map_comp o_def dom_def split: if_splits)

lemma in_flight_simps:
  "rotation (in_flight g h0 h1 h2 p) = Some (h0, h1, h2)"
  "dom (cells (in_flight g h0 h1 h2 p)) = dom (cells g)"
  "HexMap_color (in_flight g h0 h1 h2 p) h = HexMap_color g h"
  by (auto simp: in_flight_def HexMap_color_def option.map_comp o_def dom_def split: if_splits)

text \<open>
  Claim C1, as amended. On an Idle grid with cells at three distinct coordinates \<open>h0\<close>, \<open>h1\<close>,
  \<open>h2\<close>, \<^verbatim>\<open>startRotation\<close> followed by any run of \<^verbatim>\<open>stepRotation\<close> calls succeeds and keeps
  the keys of the grid. The grid is Idle again exactly when the progress accumulated over the
  frame times in binary32 arithmetic, each step adding the rounded \<open>dt * 4\<close>, has reached \<open>1\<close>.
  For frame times that are multiples of \<open>2 powi -25\<close>, for which that arithmetic is exact, this
  is exactly when the frame times add up to at least \<open>0.25\<close>; for any frame times it is so
  at the latest after the first call with \<open>dt \<ge> 0.25\<close>, when no \<open>dt\<close> is negative or not a
  number. While the grid is still Rotating every colour is where it was. Once the grid is
  Idle again the colour formerly at \<open>h1\<close> is at \<open>h0\<close>, the one formerly at \<open>h2\<close> is at \<open>h1\<close>
  and the one formerly at \<open>h0\<close> is at \<open>h2\<close>, and every other cell is unchanged.
\<close>

theorem C1_rotation_commits_cycle:
  assumes "rotation g = None"
    "cells g (Hex_key h0) \<noteq> None" "cells g (Hex_key h1) \<noteq> None" "cells g (Hex_key h2) \<noteq> None"
    "Hex_key h0 \<noteq> Hex_key h1" "Hex_key h0 \<noteq> Hex_key h2" "Hex_key h1 \<noteq> Hex_key h2"
  shows "\<exists>m. rotate_run fresh (h0, h1, h2) dts g = Inr m \<and> dom (cells m) = dom (cells g) \<and>
     (\<not> HexMap_hasRotation m) = (run_progress dts (Finite 0) = None) \<and>
     (\<forall>ks. dts = map (\<lambda>k. Finite (of_nat k / 2 ^ 25)) ks \<longrightarrow>
        (\<not> HexMap_hasRotation m) = (1 / 4 \<le> sum_list (map float_value dts))) \<and>
     ((\<forall>dt \<in> set dts. fge dt (Finite 0)) \<and> (\<exists>dt \<in> set dts. fge dt (Finite (1 / 4))) \<longrightarrow>
        \<not> HexMap_hasRotation m) \<and>
     (HexMap_hasRotation m \<longrightarrow>
        (\<forall>h. HexMap_color m h = HexMap_color g h) \<and>
        (\<forall>p. run_progress dts (Finite 0) = Some p \<longrightarrow> m = in_flight g h0 h1 h2 p)) \<and>
     (\<not> HexMap_hasRotation m \<longrightarrow>
        m = rotated g h0 h1 h2 \<and>
        HexMap_color m h0 = HexMap_color g h1 \<and> HexMap_color m h1 = HexMap_color g h2 \<and>
        HexMap_color m h2 = HexMap_color g h0 \<and>
        (\<forall>k. k \<notin> {Hex_key h0, Hex_key h1, Hex_key h2} \<longrightarrow> cells m k = cells g k))"
proof -
  have cum: "(run_progress dts (Finite 0) = None) = (1 / 4 \<le> sum_list (map float_value dts))"
    if "dts = map (\<lambda>k. Finite (of_nat k / 2 ^ 25)) ks" for ks
    unfolding that by (rule run_progress_cumulative)
  show ?thesis
  proof (cases "run_progress dts (Finite 0)")
    case None
    have d: "dom (cells (rotated g h0 h1 h2)) = dom (cells g)"
      using assms(2-4) by (auto simp: rotated_simps(2) [OF assms(5-7)])
    have run: "rotate_run fresh (h0, h1, h2) dts g = Inr (rotated g h0 h1 h2)"
      by (simp add: rotate_run_in_flight [OF assms(2-7)] None)
    have idle: "\<not> HexMap_hasRotation (rotated g h0 h1 h2)"
      by (simp add: HexMap_hasRotation_def rotated_simps(1) [OF assms(5-7)])
    have c: "\<forall>ks. dts = map (\<lambda>k. Finite (of_nat k / 2 ^ 25)) ks \<longrightarrow>
        (\<not> HexMap_hasRotation (rotated g h0 h1 h2)) = (1 / 4 \<le> sum_list (map float_value dts))"
      using cum None idle by blast
    have col: "HexMap_color (rotated g h0 h1 h2) h0 = HexMap_color g h1 \<and>
        HexMap_color (rotated g h0 h1 h2) h1 = HexMap_color g h2 \<and>
        HexMap_color (rotated g h0 h1 h2) h2 = HexMap_color g h0 \<and>
        (\<forall>k. k \<notin> {Hex_key h0, Hex_key h1, Hex_key h2} \<longrightarrow> cells (rotated g h0 h1 h2) k = cells g k)"
      using rotated_simps(3-6) [OF assms(5-7), where g = g] by blast
    show ?thesis
      unfolding run
      apply (rule exI [of _ "rotated g h0 h1 h2"])
      using d idle c col None by blast
  next
    case (Some p)
    have n: "\<not> ((\<forall>dt \<in> set dts. fge dt (Finite 0)) \<and> (\<exists>dt \<in> set dts. fge dt (Finite (1 / 4))))"
      using run_progress_commits [of dts 0] Some by auto
    have run: "rotate_run fresh (h0, h1, h2) dts g = Inr (in_flight g h0 h1 h2 p)"
      by (simp add: rotate_run_in_flight [OF assms(2-7)] Some)
    have act: "HexMap_hasRotation (in_flight g h0 h1 h2 p)"
      by (simp add: HexMap_hasRotation_def in_flight_simps)
    have c: "\<forall>ks. dts = map (\<lambda>k. Finite (of_nat k / 2 ^ 25)) ks \<longrightarrow>
        (\<not> HexMap_hasRotation (in_flight g h0 h1 h2 p)) = (1 / 4 \<le> sum_list (map float_value dts))"
      using cum Some act by (metis option.distinct(1))
    have col: "\<forall>h. HexMap_color (in_flight g h0 h1 h2 p) h = HexMap_color g h"
      by (simp add: in_flight_simps)
    have d: "dom (cells (in_flight g h0 h1 h2 p)) = dom (cells g)"
      by (simp add: in_flight_simps)
    show ?thesis
      unfolding run
      apply (rule exI [of _ "in_flight g h0 h1 h2 p"])
      using d act c col n Some by auto
  qed
qed

theorem C1_witness:
  "rotation example_grid = None \<and>
   cells example_grid (Hex_key hexA) \<noteq> None \<and> cells example_grid (Hex_key hexB) \<noteq> None \<and>
   cells example_grid (Hex_key hexC) \<noteq> None \<and>
   Hex_key hexA \<noteq> Hex_key hexB \<and> Hex_key hexA \<noteq> Hex_key hexC \<and> Hex_key hexB \<noteq> Hex_key hexC \<and>
   fge (Finite (1 / 8)) (Finite 0) \<and> fge (Finite (1 / 4)) (Finite (1 / 4)) \<and>
   [Finite (1 / 8), Finite (1 / 4)] = map (\<lambda>k. Finite (of_nat k / 2 ^ 25)) [2 ^ 22, 2 ^ 23] \<and>
   1 / 4 \<le> sum_list (map float_value [Finite (1 / 8), Finite (1 / 4)]) \<and>
   result_idle (rotate_run example_fresh (hexA, hexB, hexC) [Finite (1 / 8), Finite (1 / 4)] example_grid) \<and>
   result_color (rotate_run example_fresh (hexA, hexB, hexC) [Finite (1 / 8), Finite (1 / 4)] example_grid) hexA = Some 2 \<and>
   result_color (rotate_run example_fresh (hexA, hexB, hexC) [Finite (1 / 8), Finite (1 / 4)] example_grid) hexB = Some 3 \<and>
   result_color (rotate_run example_fresh (hexA, hexB, hexC) [Finite (1 / 8), Finite (1 / 4)] example_grid) hexC = Some 1"
proof -
  have h: "rotation example_grid = None"
    "cells example_grid (Hex_key hexA) \<noteq> None" "cells example_grid (Hex_key hexB) \<noteq> None"
    "cells example_grid (Hex_key hexC) \<noteq> None"
    "Hex_key hexA \<noteq> Hex_key hexB" "Hex_key hexA \<noteq> Hex_key hexC" "Hex_key hexB \<noteq> Hex_key hexC"
    by (simp_all add: example_keys example_grid_simps)
  have dts: "(\<forall>dt \<in> set [Finite (1 / 8), Finite (1 / 4)]. fge dt (Finite 0)) \<and>
    (\<exists>dt \<in> set [Finite (1 / 8), Finite (1 / 4)]. fge dt (Finite (1 / 4)))"
    by (simp add: fge_def)
  have grid: "[Finite (1 / 8), Finite (1 / 4)] = map (\<lambda>k. Finite (of_nat k / 2 ^ 25)) [2 ^ 22, 2 ^ 23]"
    by simp
  have total: "(1 :: rat) / 4 \<le> sum_list (map float_value [Finite (1 / 8), Finite (1 / 4)])"
    by simp
  from C1_rotation_commits_cycle [OF h, of example_fresh "[Finite (1 / 8), Finite (1 / 4)]"] dts
  obtain m where m: "rotate_run example_fresh (hexA, hexB, hexC) [Finite (1 / 8), Finite (1 / 4)] example_grid = Inr m"
    "\<not> HexMap_hasRotation m" "HexMap_color m hexA = HexMap_color example_grid hexB"
    "HexMap_color m hexB = HexMap_color example_grid hexC"
    "HexMap_color m hexC = HexMap_color example_grid hexA"
    by blast
  show ?thesis
    using h grid total
    by (simp add: m result_idle_def result_color_def example_colors fge_def)
qed

text \<open>
  Claim C1 as stated fails. After \<^verbatim>\<open>startRotation([hexA, hexB, hexC])\<close> and one step with
  \<open>dt = 0.25\<close> the grid is Idle and the colour \<open>1\<close> formerly at \<open>hexA\<close> (\<open>h0\<close>) is at \<open>hexC\<close>
  (\<open>h2\<close>), not at \<open>hexB\<close> (\<open>h1\<close>), which holds the colour \<open>3\<close> formerly at \<open>hexC\<close>. And a
  run of steps whose frame times add up to exactly \<open>0.25\<close> need not commit: after one step
  of \<open>0.1875\<close> the progress is \<open>0.75\<close>, and each further step of \<open>2 powi -28\<close> adds a quarter
  of the spacing of the binary32 numbers there, which is rounded away.
\<close>

theorem C1_counterexample:
  "rotation example_grid = None \<and>
   HexMap_color example_grid hexA = Some 1 \<and> HexMap_color example_grid hexB = Some 2 \<and>
   HexMap_color example_grid hexC = Some 3 \<and>
   result_idle (rotate_run example_fresh (hexA, hexB, hexC) [Finite (1 / 4)] example_grid) \<and>
   result_color (rotate_run example_fresh (hexA, hexB, hexC) [Finite (1 / 4)] example_grid) hexB = Some 3 \<and>
   result_color (rotate_run example_fresh (hexA, hexB, hexC) [Finite (1 / 4)] example_grid) hexC = Some 1 \<and>
   result_color (rotate_run example_fresh (hexA, hexB, hexC) [Finite (1 / 4)] example_grid) hexA = Some 2 \<and>
   sum_list (map float_value (Finite (3 / 16) # replicate (2 ^ 24) (Finite (1 / 2 ^ 28)))) = 1 / 4 \<and>
   result_rotating (rotate_run example_fresh (hexA, hexB, hexC)
     (Finite (3 / 16) # replicate (2 ^ 24) (Finite (1 / 2 ^ 28))) example_grid)"
proof -
  have keys: "Hex_key hexA \<noteq> Hex_key hexB" "Hex_key hexA \<noteq> Hex_key hexC"
    "Hex_key hexB \<noteq> Hex_key hexC"
    by (simp_all add: example_keys)
  have one: "run_progress [Finite (1 / 4)] (Finite 0) = None"
    by code_simp
  have first: "advance (Finite (3 / 16)) (Finite 0) = Finite (3 / 4)"
    by code_simp
  have "run_progress (Finite (3 / 16) # replicate (2 ^ 24) (Finite (1 / 2 ^ 28))) (Finite 0) =
      run_progress (replicate (2 ^ 24) (Finite (1 / 2 ^ 28))) (Finite (3 / 4))"
    unfolding run_progress.simps Let_def first fge_def fle.simps by simp
  then have many: "run_progress (Finite (3 / 16) # replicate (2 ^ 24) (Finite (1 / 2 ^ 28))) (Finite 0) =
      Some (Finite (3 / 4))"
    by (simp only: absorbed_run)
  have total: "sum_list (map float_value (Finite (3 / 16) # replicate (2 ^ 24) (Finite (1 / 2 ^ 28)))) =
      1 / 4"
    by (simp add: sum_list_replicate)
  show ?thesis
    unfolding example_run one many
    using total rotated_simps [OF keys, where g = example_grid]
    by (simp add: example_grid_simps example_colors result_idle_def result_color_def
        result_rotating_def HexMap_hasRotation_def in_flight_simps)
qed

text \<open>
  Claim C3, as amended. On an Idle grid with cells at three distinct coordinates \<open>h0\<close>, \<open>h1\<close>,
  \<open>h2\<close>, \<^verbatim>\<open>startRotation([h0, h1, h2])\<close> records the descriptor, gives the cell at \<open>h1\<close> the
  target \<open>h0\<close>, the cell at \<open>h2\<close> the target \<open>h1\<close> and the cell at \<open>h0\<close> the target \<open>h2\<close>,
  sets the progress of the three cells to \<open>0\<close>, changes nothing else, and leaves the grid
  Rotating.
\<close>

theorem C3_startRotation_distinct:
  assumes "rotation m = None"
    "cells m (Hex_key h0) = Some c0" "cells m (Hex_key h1) = Some c1" "cells m (Hex_key h2) = Some c2"
    "Hex_key h0 \<noteq> Hex_key h1" "Hex_key h0 \<noteq> Hex_key h2" "Hex_key h1 \<noteq> Hex_key h2"
  shows "\<exists>m'. HexMap_startRotation (h0, h1, h2) m = Inr m' \<and>
     rotation m' = Some (h0, h1, h2) \<and> HexMap_hasRotation m' \<and>
     cells m' (Hex_key h1) = Some (c1\<lparr>rotatingTo := Some h0, rotationProgress := Finite 0\<rparr>) \<and>
     cells m' (Hex_key h2) = Some (c2\<lparr>rotatingTo := Some h1, rotationProgress := Finite 0\<rparr>) \<and>
     cells m' (Hex_key h0) = Some (c0\<lparr>rotatingTo := Some h2, rotationProgress := Finite 0\<rparr>) \<and>
     same_outside {Hex_key h0, Hex_key h1, Hex_key h2} m m'"
  using assms(5-7)
  by (auto simp: HexMap_startRotation_distinct [OF assms(2-7)] HexMap_hasRotation_def
      Cell_startRotation_def same_outside_def assms(2-4) dom_def)

theorem C3_witness:
  "rotation example_grid = None \<and>
   cells example_grid (Hex_key hexA) = Some \<lparr>rotatingTo = None, rotationProgress = NaN, color = 1\<rparr> \<and>
   cells example_grid (Hex_key hexB) = Some \<lparr>rotatingTo = None, rotationProgress = NaN, color = 2\<rparr> \<and>
   cells example_grid (Hex_key hexC) = Some \<lparr>rotatingTo = None, rotationProgress = NaN, color = 3\<rparr> \<and>
   Hex_key hexA \<noteq> Hex_key hexB \<and> Hex_key hexA \<noteq> Hex_key hexC \<and> Hex_key hexB \<noteq> Hex_key hexC \<and>
   result_rotating (HexMap_startRotation (hexA, hexB, hexC) example_grid) \<and>
   result_target (HexMap_startRotation (hexA, hexB, hexC) example_grid) hexB = Some hexA \<and>
   result_target (HexMap_startRotation (hexA, hexB, hexC) example_grid) hexC = Some hexB \<and>
   result_target (HexMap_startRotation (hexA, hexB, hexC) example_grid) hexA = Some hexC \<and>
   result_progress (HexMap_startRotation (hexA, hexB, hexC) example_grid) hexA = Some (Finite 0)"
proof -
  have h: "rotation example_grid = None"
    "cells example_grid (Hex_key hexA) = Some \<lparr>rotatingTo = None, rotationProgress = NaN, color = 1\<rparr>"
    "cells example_grid (Hex_key hexB) = Some \<lparr>rotatingTo = None, rotationProgress = NaN, color = 2\<rparr>"
    "cells example_grid (Hex_key hexC) = Some \<lparr>rotatingTo = None, rotationProgress = NaN, color = 3\<rparr>"
    "Hex_key hexA \<noteq> Hex_key hexB" "Hex_key hexA \<noteq> Hex_key hexC" "Hex_key hexB \<noteq> Hex_key hexC"
    by (simp_all add: example_keys example_grid_simps)
  from C3_startRotation_distinct [OF h] show ?thesis
    using h by (auto simp: result_rotating_def result_target_def result_progress_def)
qed

text \<open>
  Claim C3 as stated fails when two of the coordinates coincide. With \<open>h0 = h1 = hexA\<close> and
  \<open>h2 = hexB\<close> the two references \<^verbatim>\<open>cell0\<close> and \<^verbatim>\<open>cell1\<close> are the same cell: it first gets the
  target \<open>h0\<close> and then the target \<open>h2\<close>, so that the cell at \<open>h1\<close> has the target \<open>hexB\<close>
  and not \<open>h0 = hexA\<close>.
\<close>

theorem C3_counterexample:
  "rotation example_grid = None \<and>
   cells example_grid (Hex_key hexA) \<noteq> None \<and> cells example_grid (Hex_key hexB) \<noteq> None \<and>
   result_rotating (HexMap_startRotation (hexA, hexA, hexB) example_grid) \<and>
   result_target (HexMap_startRotation (hexA, hexA, hexB) example_grid) hexA = Some hexB \<and>
   \<not> Hex_eq hexB hexA"
proof -
  have "\<not> Hex_eq hexB hexA"
    by (simp add: Hex_eq_def hexA_def hexB_def)
  then show ?thesis
    by (simp add: example_keys example_grid_simps HexMap_startRotation_def HexMap_at_def
        bind_err_def modify_def Cell_startRotation_def result_rotating_def result_target_def
        HexMap_hasRotation_def Let_def)
qed

text \<open>
  Claim C2, as amended. In a Rotating grid whose descriptor names three pairwise distinct
  coordinates (each of the three cells with the target that \<^verbatim>\<open>startRotation\<close> gave it), one
  call of \<^verbatim>\<open>stepRotation(dt)\<close> advances the progress of each of the three cells by \<open>dt * 4\<close>,
  clamped so that it does not exceed \<open>1\<close>. The call commits if and only if after the advance
  all three cells report that their rotation is done, that is, their progress is at least
  \<open>1\<close>: then the cell of \<open>h1\<close> is at \<open>h0\<close>, the cell of \<open>h2\<close> at \<open>h1\<close> and the cell of \<open>h0\<close>
  at \<open>h2\<close>, each without a target and with the progress \<open>-1\<close>, and the grid is Idle.
  Otherwise the grid stays Rotating with the three cells advanced and nothing else changed.
  A step with \<open>dt \<ge> 0.25\<close> from progress \<open>0\<close> commits in that same call.
\<close>

theorem C2_stepRotation_advances:
  assumes "Rotating_distinct m h0 h1 h2 c0 c1 c2"
  shows "rotationProgress (Cell_stepRotation dt c0) = advance dt (rotationProgress c0) \<and>
     rotationProgress (Cell_stepRotation dt c1) = advance dt (rotationProgress c1) \<and>
     rotationProgress (Cell_stepRotation dt c2) = advance dt (rotationProgress c2) \<and>
     \<not> fgt (advance dt (rotationProgress c0)) (Finite 1) \<and>
     \<not> fgt (advance dt (rotationProgress c1)) (Finite 1) \<and>
     \<not> fgt (advance dt (rotationProgress c2)) (Finite 1) \<and>
     Cell_rotationDone (Cell_stepRotation dt c0) = fge (advance dt (rotationProgress c0)) (Finite 1) \<and>
     Cell_rotationDone (Cell_stepRotation dt c1) = fge (advance dt (rotationProgress c1)) (Finite 1) \<and>
     Cell_rotationDone (Cell_stepRotation dt c2) = fge (advance dt (rotationProgress c2)) (Finite 1) \<and>
     HexMap_stepRotation fresh dt m =
       Inr (if fge (advance dt (rotationProgress c0)) (Finite 1) \<and>
               fge (advance dt (rotationProgress c1)) (Finite 1) \<and>
               fge (advance dt (rotationProgress c2)) (Finite 1)
            then m\<lparr>cells := (cells m)
                     (Hex_key h0 \<mapsto> c1\<lparr>rotatingTo := None, rotationProgress := Finite (- 1)\<rparr>,
                      Hex_key h1 \<mapsto> c2\<lparr>rotatingTo := None, rotationProgress := Finite (- 1)\<rparr>,
                      Hex_key h2 \<mapsto> c0\<lparr>rotatingTo := None, rotationProgress := Finite (- 1)\<rparr>),
                   rotation := None\<rparr>
            else m\<lparr>cells := (cells m)
                     (Hex_key h0 \<mapsto> c0\<lparr>rotationProgress := advance dt (rotationProgress c0)\<rparr>,
                      Hex_key h1 \<mapsto> c1\<lparr>rotationProgress := advance dt (rotationProgress c1)\<rparr>,
                      Hex_key h2 \<mapsto> c2\<lparr>rotationProgress := advance dt (rotationProgress c2)\<rparr>)\<rparr>) \<and>
     (\<exists>m'. HexMap_stepRotation fresh dt m = Inr m' \<and>
        (\<not> HexMap_hasRotation m') =
          (Cell_rotationDone (Cell_stepRotation dt c0) \<and> Cell_rotationDone (Cell_stepRotation dt c1) \<and>
           Cell_rotationDone (Cell_stepRotation dt c2)) \<and>
        (HexMap_hasRotation m' \<longrightarrow>
           Rotating_distinct m' h0 h1 h2 (Cell_stepRotation dt c0) (Cell_stepRotation dt c1)
             (Cell_stepRotation dt c2)) \<and>
        (rotationProgress c0 = Finite 0 \<and> rotationProgress c1 = Finite 0 \<and>
         rotationProgress c2 = Finite 0 \<and> fge dt (Finite (1 / 4)) \<longrightarrow> \<not> HexMap_hasRotation m'))"
proof -
  from assms have r: "rotation m = Some (h0, h1, h2)"
    and k: "Hex_key h0 \<noteq> Hex_key h1" "Hex_key h0 \<noteq> Hex_key h2" "Hex_key h1 \<noteq> Hex_key h2"
    and c: "cells m (Hex_key h0) = Some c0" "cells m (Hex_key h1) = Some c1"
      "cells m (Hex_key h2) = Some c2"
    and t: "rotatingTo c0 = Some h2" "rotatingTo c1 = Some h0" "rotatingTo c2 = Some h1"
    by (simp_all add: Rotating_distinct_def)
  have adv: "Cell_stepRotation dt c0 = c0\<lparr>rotationProgress := advance dt (rotationProgress c0)\<rparr>"
    "Cell_stepRotation dt c1 = c1\<lparr>rotationProgress := advance dt (rotationProgress c1)\<rparr>"
    "Cell_stepRotation dt c2 = c2\<lparr>rotationProgress := advance dt (rotationProgress c2)\<rparr>"
    using t by (simp_all add: Cell_stepRotation_advance)
  have done_iff: "Cell_rotationDone (Cell_stepRotation dt c0) = fge (advance dt (rotationProgress c0)) (Finite 1)"
    "Cell_rotationDone (Cell_stepRotation dt c1) = fge (advance dt (rotationProgress c1)) (Finite 1)"
    "Cell_rotationDone (Cell_stepRotation dt c2) = fge (advance dt (rotationProgress c2)) (Finite 1)"
    using t by (simp_all add: adv Cell_rotationDone_def)
  have reset: "Cell_resetRotation (Cell_stepRotation dt c0) = c0\<lparr>rotatingTo := None, rotationProgress := Finite (- 1)\<rparr>"
    "Cell_resetRotation (Cell_stepRotation dt c1) = c1\<lparr>rotatingTo := None, rotationProgress := Finite (- 1)\<rparr>"
    "Cell_resetRotation (Cell_stepRotation dt c2) = c2\<lparr>rotatingTo := None, rotationProgress := Finite (- 1)\<rparr>"
    by (simp_all add: adv Cell_resetRotation_def)
  have fresh_done: "fge (advance dt (Finite 0)) (Finite 1)" if "fge dt (Finite (1 / 4))"
    using advance_done [OF that, of 0] by (simp add: fge_def)
  have step: "HexMap_stepRotation fresh dt m =
    Inr (if Cell_rotationDone (Cell_stepRotation dt c0) \<and>
            Cell_rotationDone (Cell_stepRotation dt c1) \<and>
            Cell_rotationDone (Cell_stepRotation dt c2)
         then m\<lparr>cells := (cells m)
                  (Hex_key h0 \<mapsto> Cell_resetRotation (Cell_stepRotation dt c1),
                   Hex_key h1 \<mapsto> Cell_resetRotation (Cell_stepRotation dt c2),
                   Hex_key h2 \<mapsto> Cell_resetRotation (Cell_stepRotation dt c0)),
                rotation := None\<rparr>
         else m\<lparr>cells := (cells m)
                  (Hex_key h0 \<mapsto> Cell_stepRotation dt c0,
                   Hex_key h1 \<mapsto> Cell_stepRotation dt c1,
                   Hex_key h2 \<mapsto> Cell_stepRotation dt c2)\<rparr>)"
    by (rule HexMap_stepRotation_distinct [OF r c k t(1) refl t(2) refl t(3) refl])
  have first: "rotationProgress (Cell_stepRotation dt c0) = advance dt (rotationProgress c0) \<and>
     rotationProgress (Cell_stepRotation dt c1) = advance dt (rotationProgress c1) \<and>
     rotationProgress (Cell_stepRotation dt c2) = advance dt (rotationProgress c2) \<and>
     \<not> fgt (advance dt (rotationProgress c0)) (Finite 1) \<and>
     \<not> fgt (advance dt (rotationProgress c1)) (Finite 1) \<and>
     \<not> fgt (advance dt (rotationProgress c2)) (Finite 1)"
    by (simp add: adv advance_le_1)
  have explicit: "HexMap_stepRotation fresh dt m =
       Inr (if fge (advance dt (rotationProgress c0)) (Finite 1) \<and>
               fge (advance dt (rotationProgress c1)) (Finite 1) \<and>
               fge (advance dt (rotationProgress c2)) (Finite 1)
            then m\<lparr>cells := (cells m)
                     (Hex_key h0 \<mapsto> c1\<lparr>rotatingTo := None, rotationProgress := Finite (- 1)\<rparr>,
                      Hex_key h1 \<mapsto> c2\<lparr>rotatingTo := None, rotationProgress := Finite (- 1)\<rparr>,
                      Hex_key h2 \<mapsto> c0\<lparr>rotatingTo := None, rotationProgress := Finite (- 1)\<rparr>),
                   rotation := None\<rparr>
            else m\<lparr>cells := (cells m)
                     (Hex_key h0 \<mapsto> c0\<lparr>rotationProgress := advance dt (rotationProgress c0)\<rparr>,
                      Hex_key h1 \<mapsto> c1\<lparr>rotationProgress := advance dt (rotationProgress c1)\<rparr>,
                      Hex_key h2 \<mapsto> c2\<lparr>rotationProgress := advance dt (rotationProgress c2)\<rparr>)\<rparr>)"
    unfolding step done_iff reset unfolding adv by (rule refl)
  have last: "\<exists>m'. HexMap_stepRotation fresh dt m = Inr m' \<and>
        (\<not> HexMap_hasRotation m') =
          (Cell_rotationDone (Cell_stepRotation dt c0) \<and> Cell_rotationDone (Cell_stepRotation dt c1) \<and>
           Cell_rotationDone (Cell_stepRotation dt c2)) \<and>
        (HexMap_hasRotation m' \<longrightarrow>
           Rotating_distinct m' h0 h1 h2 (Cell_stepRotation dt c0) (Cell_stepRotation dt c1)
             (Cell_stepRotation dt c2)) \<and>
        (rotationProgress c0 = Finite 0 \<and> rotationProgress c1 = Finite 0 \<and>
         rotationProgress c2 = Finite 0 \<and> fge dt (Finite (1 / 4)) \<longrightarrow> \<not> HexMap_hasRotation m')"
  proof (cases "Cell_rotationDone (Cell_stepRotation dt c0) \<and>
            Cell_rotationDone (Cell_stepRotation dt c1) \<and>
            Cell_rotationDone (Cell_stepRotation dt c2)")
    case True
    then show ?thesis by (simp add: step HexMap_hasRotation_def)
  next
    case False
    have "Rotating_distinct (m\<lparr>cells := (cells m)
                  (Hex_key h0 \<mapsto> Cell_stepRotation dt c0,
                   Hex_key h1 \<mapsto> Cell_stepRotation dt c1,
                   Hex_key h2 \<mapsto> Cell_stepRotation dt c2)\<rparr>) h0 h1 h2
       (Cell_stepRotation dt c0) (Cell_stepRotation dt c1) (Cell_stepRotation dt c2)"
      using k t r by (simp add: Rotating_distinct_def Cell_stepRotation_rotatingTo)
    moreover have "\<not> (rotationProgress c0 = Finite 0 \<and> rotationProgress c1 = Finite 0 \<and>
         rotationProgress c2 = Finite 0 \<and> fge dt (Finite (1 / 4)))"
      using False fresh_done by (auto simp: done_iff)
    ultimately show ?thesis
      using False r by (simp add: step HexMap_hasRotation_def)
  qed
  from first done_iff explicit last show ?thesis by blast
qed

theorem C2_witness:
  "Rotating_distinct (in_flight example_grid hexA hexB hexC (Finite 0)) hexA hexB hexC
     \<lparr>rotatingTo = Some hexC, rotationProgress = Finite 0, color = 1\<rparr>
     \<lparr>rotatingTo = Some hexA, rotationProgress = Finite 0, color = 2\<rparr>
     \<lparr>rotatingTo = Some hexB, rotationProgress = Finite 0, color = 3\<rparr> \<and>
   fge (Finite (1 / 4)) (Finite (1 / 4)) \<and>
   result_idle (HexMap_stepRotation example_fresh (Finite (1 / 4))
     (in_flight example_grid hexA hexB hexC (Finite 0)))"
proof -
  have R: "Rotating_distinct (in_flight example_grid hexA hexB hexC (Finite 0)) hexA hexB hexC
     \<lparr>rotatingTo = Some hexC, rotationProgress = Finite 0, color = 1\<rparr>
     \<lparr>rotatingTo = Some hexA, rotationProgress = Finite 0, color = 2\<rparr>
     \<lparr>rotatingTo = Some hexB, rotationProgress = Finite 0, color = 3\<rparr>"
    by (simp add: Rotating_distinct_def in_flight_def example_keys example_grid_simps)
  have dt: "fge (Finite (1 / 4)) (Finite (1 / 4))"
    by (simp add: fge_def)
  from C2_stepRotation_advances [OF R, of "Finite (1 / 4)" example_fresh] dt
  obtain m' where "HexMap_stepRotation example_fresh (Finite (1 / 4))
      (in_flight example_grid hexA hexB hexC (Finite 0)) = Inr m'" "\<not> HexMap_hasRotation m'"
    by auto
  then show ?thesis
    using R dt by (simp add: result_idle_def)
qed

text \<open>
  Claim C2 as stated fails in a Rotating grid whose descriptor repeats a coordinate. After
  \<^verbatim>\<open>startRotation([hexA, hexA, hexB])\<close> the references \<^verbatim>\<open>cell0\<close> and \<^verbatim>\<open>cell1\<close> of
  \<^verbatim>\<open>stepRotation\<close> are the same cell, which is stepped twice: one call with \<open>dt = 1 / 64\<close>
  takes the progress of the cell at \<open>hexA\<close> from \<open>0\<close> to \<open>1 / 8\<close>, not to \<open>dt * 4 = 1 / 16\<close>,
  while the cell at \<open>hexB\<close> is at \<open>1 / 16\<close>.
\<close>

theorem C2_counterexample:
  "rotation example_grid = None \<and>
   cells example_grid (Hex_key hexA) \<noteq> None \<and> cells example_grid (Hex_key hexB) \<noteq> None \<and>
   result_rotating (HexMap_startRotation (hexA, hexA, hexB) example_grid) \<and>
   result_progress (HexMap_startRotation (hexA, hexA, hexB) example_grid) hexA = Some (Finite 0) \<and>
   fge (Finite (1 / 64)) (Finite 0) \<and>
   advance (Finite (1 / 64)) (Finite 0) = Finite (1 / 16) \<and>
   result_rotating (rotate_run example_fresh (hexA, hexA, hexB) [Finite (1 / 64)] example_grid) \<and>
   result_progress (rotate_run example_fresh (hexA, hexA, hexB) [Finite (1 / 64)] example_grid) hexA =
     Some (Finite (1 / 8)) \<and>
   result_progress (rotate_run example_fresh (hexA, hexA, hexB) [Finite (1 / 64)] example_grid) hexB =
     Some (Finite (1 / 16))"
  by (simp add: example_keys example_grid_simps aliased_pair advance_64th(1) fge_def)

lemma run_progress_append:
  "run_progress (xs @ ys) p =
    (case run_progress xs p of None \<Rightarrow> None | Some p' \<Rightarrow> run_progress ys p')"
  by (induction xs arbitrary: p) (simp_all add: Let_def)

text \<open>
  Claim C5, as amended. From a rotation freshly started on three pairwise distinct
  coordinates, the grid is Idle after \<open>n\<close> calls of \<^verbatim>\<open>stepRotation(dt)\<close> if and only if one of
  the first \<open>n\<close> values of the progress accumulated in binary32 arithmetic has reached \<open>1\<close>,
  and it is Rotating otherwise. For the step sizes \<open>dt = 2 powi -(k + 2)\<close> with \<open>k \<le> 23\<close>,
  for which that arithmetic is exact, the commit is on exactly the call number \<open>2 ^ k\<close>,
  which is \<open>\<lceil>0.25 / dt\<rceil>\<close>. For every \<open>dt\<close>, \<^verbatim>\<open>stepRotation(dt)\<close> on an Idle grid changes
  nothing.
\<close>

theorem C5_commit_call:
  assumes "rotation g = None"
    "cells g (Hex_key h0) \<noteq> None" "cells g (Hex_key h1) \<noteq> None" "cells g (Hex_key h2) \<noteq> None"
    "Hex_key h0 \<noteq> Hex_key h1" "Hex_key h0 \<noteq> Hex_key h2" "Hex_key h1 \<noteq> Hex_key h2"
    "k \<le> 23"
  shows "(\<forall>n. result_rotating (rotate_run fresh (h0, h1, h2) (replicate n dt) g) =
            (\<forall>j \<in> {1..n}. \<not> fge ((advance dt ^^ j) (Finite 0)) (Finite 1))) \<and>
         (\<forall>n. result_idle (rotate_run fresh (h0, h1, h2) (replicate n dt) g) =
            (\<exists>j \<in> {1..n}. fge ((advance dt ^^ j) (Finite 0)) (Finite 1))) \<and>
         (\<forall>n. result_idle (rotate_run fresh (h0, h1, h2) (replicate n (Finite (1 / 2 ^ (k + 2)))) g) =
            (2 ^ k \<le> n)) \<and>
         \<lceil>(1 / 4) / (1 / 2 ^ (k + 2) :: rat)\<rceil> = 2 ^ k \<and>
         (\<forall>m dt'. rotation m = None \<longrightarrow> HexMap_stepRotation fresh dt' m = Inr m)"
proof -
  have idle: "result_idle (rotate_run fresh (h0, h1, h2) dts g) = (run_progress dts (Finite 0) = None)"
    for dts
    by (cases "run_progress dts (Finite 0)")
      (simp_all add: rotate_run_in_flight [OF assms(2-7)] result_idle_def HexMap_hasRotation_def
        rotated_simps(1) [OF assms(5-7)] in_flight_simps)
  have rotating: "result_rotating (rotate_run fresh (h0, h1, h2) dts g) =
      (run_progress dts (Finite 0) \<noteq> None)" for dts
    by (cases "run_progress dts (Finite 0)")
      (simp_all add: rotate_run_in_flight [OF assms(2-7)] result_rotating_def
        HexMap_hasRotation_def rotated_simps(1) [OF assms(5-7)] in_flight_simps)
  have "(1 / 4) / (1 / 2 ^ (k + 2) :: rat) = of_int (2 ^ k)"
    by simp
  then have ceil: "\<lceil>(1 / 4) / (1 / 2 ^ (k + 2) :: rat)\<rceil> = 2 ^ k"
    by (simp only: ceiling_of_int)
  have a: "\<forall>n. result_rotating (rotate_run fresh (h0, h1, h2) (replicate n dt) g) =
            (\<forall>j \<in> {1..n}. \<not> fge ((advance dt ^^ j) (Finite 0)) (Finite 1))"
    unfolding rotating run_progress_funpow by simp
  have b: "\<forall>n. result_idle (rotate_run fresh (h0, h1, h2) (replicate n dt) g) =
            (\<exists>j \<in> {1..n}. fge ((advance dt ^^ j) (Finite 0)) (Finite 1))"
    unfolding idle run_progress_funpow by simp
  have c: "\<forall>n. result_idle (rotate_run fresh (h0, h1, h2) (replicate n (Finite (1 / 2 ^ (k + 2)))) g) =
            (2 ^ k \<le> n)"
    unfolding idle run_progress_pow2 [OF assms(8)] by (rule allI) (rule refl)
  have d: "\<forall>m dt'. rotation m = None \<longrightarrow> HexMap_stepRotation fresh dt' m = Inr m"
    by (simp add: HexMap_stepRotation_idle)
  from a b c ceil d show ?thesis by (intro conjI)
qed

theorem C5_witness:
  "rotation example_grid = None \<and>
   cells example_grid (Hex_key hexA) \<noteq> None \<and> cells example_grid (Hex_key hexB) \<noteq> None \<and>
   cells example_grid (Hex_key hexC) \<noteq> None \<and>
   Hex_key hexA \<noteq> Hex_key hexB \<and> Hex_key hexA \<noteq> Hex_key hexC \<and> Hex_key hexB \<noteq> Hex_key hexC \<and>
   (4::nat) \<le> 23 \<and>
   result_idle (rotate_run example_fresh (hexA, hexB, hexC) (replicate 16 (Finite (1 / 64))) example_grid) \<and>
   \<not> result_idle (rotate_run example_fresh (hexA, hexB, hexC) (replicate 15 (Finite (1 / 64))) example_grid) \<and>
   HexMap_stepRotation example_fresh (Finite (1 / 64)) example_grid = Inr example_grid"
proof -
  have h: "rotation example_grid = None"
    "cells example_grid (Hex_key hexA) \<noteq> None" "cells example_grid (Hex_key hexB) \<noteq> None"
    "cells example_grid (Hex_key hexC) \<noteq> None"
    "Hex_key hexA \<noteq> Hex_key hexB" "Hex_key hexA \<noteq> Hex_key hexC" "Hex_key hexB \<noteq> Hex_key hexC"
    "(4::nat) \<le> 23"
    by (simp_all add: example_keys example_grid_simps)
  from C5_commit_call [OF h, of example_fresh "Finite (1 / 64)"]
  have "\<forall>n. result_idle (rotate_run example_fresh (hexA, hexB, hexC)
      (replicate n (Finite (1 / 2 ^ (4 + 2)))) example_grid) = (2 ^ 4 \<le> n)"
    and "\<forall>m dt'. rotation m = None \<longrightarrow> HexMap_stepRotation example_fresh dt' m = Inr m"
    by blast+
  then have "result_idle (rotate_run example_fresh (hexA, hexB, hexC)
      (replicate 16 (Finite (1 / 2 ^ (4 + 2)))) example_grid)"
    and "\<not> result_idle (rotate_run example_fresh (hexA, hexB, hexC)
      (replicate 15 (Finite (1 / 2 ^ (4 + 2)))) example_grid)"
    and "HexMap_stepRotation example_fresh (Finite (1 / 64)) example_grid = Inr example_grid"
    using h(1) by simp_all
  then show ?thesis using h by simp
qed

text \<open>
  Claim C5 as stated fails for the frame time of 48 frames per second. The binary32 number
  nearest to \<open>1 / 48\<close> is \<open>11184811 / 536870912\<close>, and \<open>\<lceil>0.25 / dt\<rceil> = 12\<close> for both; after 12
  calls the accumulated progress is \<open>8388607 / 8388608\<close>, one unit in the last place below
  \<open>1\<close>, and the grid is still Rotating. The commit is on the 13th call. It fails as well
  when the coordinates coincide: after \<^verbatim>\<open>startRotation([hexA, hexA, hexA])\<close> each call steps
  the one cell three times, and with \<open>dt = 1 / 64\<close> the commit is on the 6th call, not on the
  16th.
\<close>

theorem C5_counterexample:
  "round32 (1 / 48) = Finite (11184811 / 536870912) \<and>
   \<lceil>(1 / 4) / (1 / 48 :: rat)\<rceil> = 12 \<and>
   \<lceil>(1 / 4) / (11184811 / 536870912 :: rat)\<rceil> = 12 \<and>
   result_rotating (rotate_run example_fresh (hexA, hexB, hexC)
     (replicate 12 (Finite (11184811 / 536870912))) example_grid) \<and>
   result_progress (rotate_run example_fresh (hexA, hexB, hexC)
     (replicate 12 (Finite (11184811 / 536870912))) example_grid) hexA = Some (Finite (8388607 / 8388608)) \<and>
   result_idle (rotate_run example_fresh (hexA, hexB, hexC)
     (replicate 13 (Finite (11184811 / 536870912))) example_grid) \<and>
   \<lceil>(1 / 4) / (1 / 64 :: rat)\<rceil> = 16 \<and>
   result_rotating (rotate_run example_fresh (hexA, hexA, hexA)
     (replicate 5 (Finite (1 / 64))) example_grid) \<and>
   result_idle (rotate_run example_fresh (hexA, hexA, hexA)
     (replicate 6 (Finite (1 / 64))) example_grid)"
proof -
  have keys: "Hex_key hexA \<noteq> Hex_key hexB" "Hex_key hexA \<noteq> Hex_key hexC"
    "Hex_key hexB \<noteq> Hex_key hexC"
    by (simp_all add: example_keys)
  have r: "round32 (1 / 48) = Finite (11184811 / 536870912)"
    by code_simp
  have c: "\<lceil>(1 / 4) / (1 / 48 :: rat)\<rceil> = 12" "\<lceil>(1 / 4) / (11184811 / 536870912 :: rat)\<rceil> = 12"
    by code_simp+
  have twelve: "run_progress (replicate 12 (Finite (11184811 / 536870912))) (Finite 0) =
      Some (Finite (8388607 / 8388608))"
    by code_simp
  have last: "run_progress [Finite (11184811 / 536870912)] (Finite (8388607 / 8388608)) = None"
    by code_simp
  have "replicate 13 (Finite (11184811 / 536870912)) =
      replicate 12 (Finite (11184811 / 536870912)) @ [Finite (11184811 / 536870912)]"
    by (simp add: numeral_eq_Suc replicate_append_same)
  then have thirteen: "run_progress (replicate 13 (Finite (11184811 / 536870912))) (Finite 0) = None"
    by (simp only: run_progress_append twelve last option.case)
  have first: "round32 (1 / 48) = Finite (11184811 / 536870912) \<and>
   \<lceil>(1 / 4) / (1 / 48 :: rat)\<rceil> = 12 \<and>
   \<lceil>(1 / 4) / (11184811 / 536870912 :: rat)\<rceil> = 12 \<and>
   result_rotating (rotate_run example_fresh (hexA, hexB, hexC)
     (replicate 12 (Finite (11184811 / 536870912))) example_grid) \<and>
   result_progress (rotate_run example_fresh (hexA, hexB, hexC)
     (replicate 12 (Finite (11184811 / 536870912))) example_grid) hexA = Some (Finite (8388607 / 8388608)) \<and>
   result_idle (rotate_run example_fresh (hexA, hexB, hexC)
     (replicate 13 (Finite (11184811 / 536870912))) example_grid)"
    unfolding example_run twelve thirteen
    using r c rotated_simps(1) [OF keys, where g = example_grid]
    by (simp add: result_rotating_def result_idle_def result_progress_def HexMap_hasRotation_def
        in_flight_simps(1) in_flight_def example_keys example_grid_simps)
  have sixteen: "\<lceil>(1 / 4) / (1 / 64 :: rat)\<rceil> = 16"
    by simp
  from first sixteen aliased_triple(1) aliased_triple(3) show ?thesis
    by blast
qed

text \<open>
  Claim C8. For every size \<open>n \<ge> 0\<close> the grid produced by \<^verbatim>\<open>generateHexMap(n)\<close> has exactly
  \<open>3 * n\<^sup>2 + 3 * n + 1\<close> cells, one under each key; for \<open>n = 2\<close> these are 19 cells.
\<close>

theorem C8_generateHexMap_card:
  assumes "0 \<le> n"
  shows "finite (dom (cells (generateHexMap fresh n))) \<and>
    int (card (dom (cells (generateHexMap fresh n)))) = 3 * n\<^sup>2 + 3 * n + 1 \<and>
    card (dom (cells (generateHexMap fresh 2))) = 19"
proof -
  have "finite (SIGMA a:{- n..n}. hex_rows n a)"
    by (intro finite_SigmaI) (simp_all add: hex_rows_def)
  then have "finite (dom (cells (generateHexMap fresh n)))"
    by (simp add: dom_generateHexMap)
  moreover have "int (card (dom (cells (generateHexMap fresh 2)))) = 19"
    using card_generateHexMap [of 2 fresh] by simp
  then have "card (dom (cells (generateHexMap fresh 2))) = 19"
    by linarith
  ultimately show ?thesis
    using card_generateHexMap [OF assms, of fresh] by simp
qed

theorem C8_witness:
  "(0::int) \<le> 2 \<and> int (card (dom (cells (generateHexMap example_fresh 2)))) = 19 \<and>
   card (dom (cells (generateHexMap example_fresh 2))) = 19"
proof -
  have h: "(0::int) \<le> 2" by simp
  from C8_generateHexMap_card [OF h, of example_fresh] show ?thesis by simp
qed

text \<open>
  Claim C10. In a Rotating grid whose descriptor \<open>[h0, h1, h2]\<close> names three coordinates of the
  grid, each holding a cell whose target is one of the three (which is so in every state
  the grid can reach), a call of \<^verbatim>\<open>stepRotation(dt)\<close> succeeds, leaves the set of keys as it
  is, and leaves the cell under every key other than \<open>h0\<close>, \<open>h1\<close>, \<open>h2\<close> unchanged.
\<close>

theorem C10_stepRotation_frame:
  assumes "rotation m = Some (h0, h1, h2)" "rotation_wf m \<or> reachable ok m"
  shows "\<exists>m'. HexMap_stepRotation fresh dt m = Inr m' \<and> dom (cells m') = dom (cells m) \<and>
    (\<forall>k. k \<notin> {Hex_key h0, Hex_key h1, Hex_key h2} \<longrightarrow> cells m' k = cells m k)"
proof -
  from assms(2) have "rotation_wf m"
    using reachable_rotation_wf by blast
  with assms(1) have "targets_in (descriptor_keys (h0, h1, h2)) m"
    by (simp add: rotation_wf_def)
  from HexMap_stepRotation_wf [OF assms(1) this, of fresh dt] show ?thesis
    by (auto simp: same_outside_def descriptor_keys_def)
qed

theorem C10_witness:
  "rotation (in_flight example_grid hexA hexB hexC (Finite 0)) = Some (hexA, hexB, hexC) \<and>
   rotation_wf (in_flight example_grid hexA hexB hexC (Finite 0)) \<and>
   result_color (HexMap_stepRotation example_fresh (Finite (1 / 4))
     (in_flight example_grid hexA hexB hexC (Finite 0))) hexD = Some 4"
proof -
  let ?m = "in_flight example_grid hexA hexB hexC (Finite 0)"
  have r: "rotation ?m = Some (hexA, hexB, hexC)"
    by (simp add: in_flight_simps)
  have wf: "rotation_wf ?m"
    by (simp add: rotation_wf_def r targets_in_def descriptor_keys_def in_flight_def example_keys
        example_grid_simps)
  have D: "Hex_key hexD \<notin> {Hex_key hexA, Hex_key hexB, Hex_key hexC}"
    by (simp add: example_keys)
  from C10_stepRotation_frame [OF r disjI1 [OF wf], of example_fresh "Finite (1 / 4)"]
  obtain m' where m': "HexMap_stepRotation example_fresh (Finite (1 / 4)) ?m = Inr m'"
    "\<forall>k. k \<notin> {Hex_key hexA, Hex_key hexB, Hex_key hexC} \<longrightarrow> cells m' k = cells ?m k"
    by blast
  from m'(2) D have "cells m' (Hex_key hexD) = cells ?m (Hex_key hexD)"
    by blast
  then have "HexMap_color m' hexD = Some 4"
    by (simp add: HexMap_color_def in_flight_def example_keys example_grid_simps)
  with r wf m'(1) show ?thesis
    by (simp add: result_color_def)
qed

text \<open>
  Claim C4. In every state reached from a generated grid by \<^verbatim>\<open>insert\<close>, by \<^verbatim>\<open>startRotation\<close>
  under its preconditions and by \<^verbatim>\<open>stepRotation\<close>: when the descriptor is present, its three
  coordinates are keys of the grid and each of the three cells has a target, which is one of
  the three coordinates. When the cells that \<^verbatim>\<open>insert\<close> adds have no target (as those made
  by the constructor), the descriptor is present if and only if some cell of the grid has a
  target, and every cell with a target is one of the three cells of the descriptor: there
  is no second rotation.
\<close>

theorem C4_reachable_invariant:
  "(reachable ok m \<longrightarrow>
      (\<forall>h0 h1 h2. rotation m = Some (h0, h1, h2) \<longrightarrow>
         (\<forall>k \<in> {Hex_key h0, Hex_key h1, Hex_key h2}.
            \<exists>c t. cells m k = Some c \<and> rotatingTo c = Some t \<and>
              Hex_key t \<in> {Hex_key h0, Hex_key h1, Hex_key h2}))) \<and>
   (reachable Cell_idle m \<longrightarrow>
      (rotation m \<noteq> None) = (\<exists>k c. cells m k = Some c \<and> rotatingTo c \<noteq> None) \<and>
      (\<forall>h0 h1 h2 k c. rotation m = Some (h0, h1, h2) \<longrightarrow> cells m k = Some c \<longrightarrow>
         rotatingTo c \<noteq> None \<longrightarrow> k \<in> {Hex_key h0, Hex_key h1, Hex_key h2}))"
proof (intro conjI impI)
  assume "reachable ok m"
  then have wf: "rotation_wf m" by (rule reachable_rotation_wf)
  show "\<forall>h0 h1 h2. rotation m = Some (h0, h1, h2) \<longrightarrow>
         (\<forall>k \<in> {Hex_key h0, Hex_key h1, Hex_key h2}.
            \<exists>c t. cells m k = Some c \<and> rotatingTo c = Some t \<and>
              Hex_key t \<in> {Hex_key h0, Hex_key h1, Hex_key h2})"
  proof (intro allI impI)
    fix h0 h1 h2 assume "rotation m = Some (h0, h1, h2)"
    with wf have "targets_in {Hex_key h0, Hex_key h1, Hex_key h2} m"
      by (simp add: rotation_wf_def descriptor_keys_def)
    then show "\<forall>k \<in> {Hex_key h0, Hex_key h1, Hex_key h2}.
            \<exists>c t. cells m k = Some c \<and> rotatingTo c = Some t \<and>
              Hex_key t \<in> {Hex_key h0, Hex_key h1, Hex_key h2}"
      unfolding targets_in_def .
  qed
next
  assume r: "reachable Cell_idle m"
  then have wf: "rotation_wf m" and ns: "no_stray m"
    by (rule reachable_rotation_wf, rule reachable_no_stray)
  show "(rotation m \<noteq> None) = (\<exists>k c. cells m k = Some c \<and> rotatingTo c \<noteq> None)"
  proof
    assume "rotation m \<noteq> None"
    then obtain h0 h1 h2 where d: "rotation m = Some (h0, h1, h2)" by (cases "rotation m") auto
    with wf have "targets_in {Hex_key h0, Hex_key h1, Hex_key h2} m"
      by (simp add: rotation_wf_def descriptor_keys_def)
    then obtain c t where "cells m (Hex_key h0) = Some c" "rotatingTo c = Some t"
      unfolding targets_in_def by blast
    then show "\<exists>k c. cells m k = Some c \<and> rotatingTo c \<noteq> None"
      by (intro exI [of _ "Hex_key h0"] exI [of _ c]) simp
  next
    assume "\<exists>k c. cells m k = Some c \<and> rotatingTo c \<noteq> None"
    with ns show "rotation m \<noteq> None" unfolding no_stray_def by fastforce
  qed
next
  assume r: "reachable Cell_idle m"
  then have ns: "no_stray m" by (rule reachable_no_stray)
  show "\<forall>h0 h1 h2 k c. rotation m = Some (h0, h1, h2) \<longrightarrow> cells m k = Some c \<longrightarrow>
         rotatingTo c \<noteq> None \<longrightarrow> k \<in> {Hex_key h0, Hex_key h1, Hex_key h2}"
  proof (intro allI impI)
    fix h0 h1 h2 k c
    assume a: "rotation m = Some (h0, h1, h2)" "cells m k = Some c" "rotatingTo c \<noteq> None"
    from ns a(2,3) obtain d where "rotation m = Some d" "k \<in> descriptor_keys d"
      unfolding no_stray_def by blast
    with a(1) show "k \<in> {Hex_key h0, Hex_key h1, Hex_key h2}"
      by (simp add: descriptor_keys_def)
  qed
qed

lemma example_inserted_simps:
  "rotation example_inserted = None"
  "cells example_inserted (Hex_key hexA) \<noteq> None"
  "cells example_inserted (Hex_key hexB) \<noteq> None"
  "cells example_inserted (Hex_key hexC) \<noteq> None"
proof -
  have A: "Hex_key hexA \<in> dom (cells (generateHexMap example_fresh 0))"
    by (simp add: dom_generateHexMap hex_rows_def example_keys)
  then have "Hex_key hexA \<in> dom (cells example_inserted)"
    by (simp add: example_inserted_def dom_HexMap_insert)
  then show "cells example_inserted (Hex_key hexA) \<noteq> None" by blast
  have "Hex_key hexB \<in> dom (cells example_inserted)" "Hex_key hexC \<in> dom (cells example_inserted)"
    by (simp_all add: example_inserted_def dom_HexMap_insert)
  then show "cells example_inserted (Hex_key hexB) \<noteq> None"
    "cells example_inserted (Hex_key hexC) \<noteq> None" by blast+
  show "rotation example_inserted = None"
    using generateHexMap_idle [of example_fresh 0]
    by (simp add: example_inserted_def HexMap_insert_simps(1) all_idle_def)
qed

lemma example_reached_reachable: "reachable Cell_idle example_reached"
proof -
  have ins: "reachable Cell_idle example_inserted"
    unfolding example_inserted_def
    by (intro reachable.inserted reachable.generated) (simp_all add: Cell_idle_def Cell_ctor_def)
  have start: "HexMap_startRotation (hexA, hexB, hexC) example_inserted = Inr example_reached"
    unfolding example_reached_def
    by (rule HexMap_startRotation_in_flight) (simp_all only: example_inserted_simps, simp_all add: example_keys)
  from ins example_inserted_simps start show ?thesis
    by (rule reachable.started)
qed

theorem C4_witness:
  "reachable Cell_idle example_reached \<and>
   rotation example_reached = Some (hexA, hexB, hexC) \<and>
   (\<exists>c t. cells example_reached (Hex_key hexA) = Some c \<and> rotatingTo c = Some t \<and>
      Hex_key t \<in> {Hex_key hexA, Hex_key hexB, Hex_key hexC}) \<and>
   (\<exists>k c. cells example_reached k = Some c \<and> rotatingTo c \<noteq> None)"
proof -
  have r: "rotation example_reached = Some (hexA, hexB, hexC)"
    by (simp add: example_reached_def in_flight_simps)
  from C4_reachable_invariant [of Cell_idle example_reached] example_reached_reachable r
  show ?thesis by (simp (no_asm_use)) blast
qed


section \<open>The claim about the arc interpolation\<close>







end
